theory Spec2Isabelle
  imports Main
begin

section \<open>Values and strings of the host language\<close>

text \<open>
  The program is TypeScript. A value of type \<open>unknown\<close> (a tool argument, the result of
  \<open>JSON.parse\<close>) is a JSON value; numbers are kept to the integers, which is all the
  modelled code paths compute with. A string is a list of characters, compared code
  unit by code unit.
\<close>

datatype jsval =
    JNull
  | JBool bool
  | JNum int
  | JStr string
  | JArr "jsval list"
  | JObj "(string \<times> jsval) list"

text \<open>\<open>String.prototype.toLowerCase\<close>, on the ASCII letters.\<close>

definition lower_char :: "char \<Rightarrow> char" where
  "lower_char c =
     (let n = (of_char c :: nat) in if 65 \<le> n \<and> n \<le> 90 then char_of (n + 32) else c)"

definition toLowerCase :: "string \<Rightarrow> string" where
  "toLowerCase s = map lower_char s"

text \<open>\<open>String.prototype.startsWith\<close> and \<open>String.prototype.includes\<close>.\<close>

fun startsWith :: "string \<Rightarrow> string \<Rightarrow> bool" where
  "startsWith s [] = True"
| "startsWith [] (p # ps) = False"
| "startsWith (c # cs) (p # ps) = (c = p \<and> startsWith cs ps)"

fun str_includes :: "string \<Rightarrow> string \<Rightarrow> bool" where
  "str_includes [] sub = (sub = [])"
| "str_includes (c # cs) sub = (startsWith (c # cs) sub \<or> str_includes cs sub)"

subsection \<open>Plain objects used as dictionaries\<close>

text \<open>
  A plain object (\<open>Record<string, T>\<close>) is the list of its own properties in the order
  they were created, and a \<open>Map\<close> is the list of its entries in insertion order.
  Assigning to an existing key keeps its place, assigning to a new key appends,
  \<open>delete\<close> removes. A \<open>Map\<close> is iterated in this order.
\<close>

type_synonym 'v obj = "(string \<times> 'v) list"

fun obj_get :: "('k \<times> 'v) list \<Rightarrow> 'k \<Rightarrow> 'v option" where
  "obj_get [] k = None"
| "obj_get ((k', v) # ps) k = (if k' = k then Some v else obj_get ps k)"

fun obj_set :: "'k \<Rightarrow> 'v \<Rightarrow> ('k \<times> 'v) list \<Rightarrow> ('k \<times> 'v) list" where
  "obj_set k v [] = [(k, v)]"
| "obj_set k v ((k', v') # ps) = (if k' = k then (k, v) # ps else (k', v') # obj_set k v ps)"

definition obj_delete :: "'k \<Rightarrow> ('k \<times> 'v) list \<Rightarrow> ('k \<times> 'v) list" where
  "obj_delete k ps = filter (\<lambda>p. fst p \<noteq> k) ps"

text \<open>
  \<open>Object.entries\<close>, \<open>Object.values\<close> and \<open>for ... in\<close> do not enumerate in creation
  order: the keys that are array indices (canonical decimal numerals below \<open>2^32 - 1\<close>)
  come first, in ascending numeric order, and only then the other keys in creation
  order.
\<close>

definition is_digit :: "char \<Rightarrow> bool" where
  "is_digit c = (48 \<le> (of_char c :: int) \<and> (of_char c :: int) \<le> 57)"

definition digits_value :: "string \<Rightarrow> int" where
  "digits_value s = fold (\<lambda>c acc. acc * 10 + ((of_char c :: int) - 48)) s 0"

definition is_array_index :: "string \<Rightarrow> bool" where
  "is_array_index s =
     (s \<noteq> [] \<and> list_all is_digit s \<and> (s = ''0'' \<or> hd s \<noteq> CHR ''0'')
      \<and> digits_value s < 4294967295)"

definition object_entries :: "'v obj \<Rightarrow> (string \<times> 'v) list" where
  "object_entries ps =
     sort_key (\<lambda>p. digits_value (fst p)) (filter (\<lambda>p. is_array_index (fst p)) ps)
     @ filter (\<lambda>p. \<not> is_array_index (fst p)) ps"

text \<open>
  \<open>Array.prototype.slice(start)\<close> with one argument: a negative \<open>start\<close> counts from
  the end, and both ends are clamped. \<open>slice(-0)\<close> is \<open>slice(0)\<close>, the whole array.
\<close>

definition slice_from :: "int \<Rightarrow> 'a list \<Rightarrow> 'a list" where
  "slice_from start xs =
     (let len = int (length xs);
          k = (if start < 0 then max (len + start) 0 else min start len)
      in drop (nat k) xs)"

section \<open>Audit log (security.ts)\<close>

datatype audit_action = Invoke | Deny | ActionError

datatype audit_result = Success | Failure

record AuditEntry =
  ae_timestamp :: string
  ae_server :: string
  ae_tool :: string
  ae_action :: audit_action
  ae_arguments :: "jsval obj option"
  ae_result :: "audit_result option"
  ae_reason :: "string option"
  ae_durationMs :: "int option"

record AuditLog =
  entries :: "AuditEntry list"
  maxEntries :: int

definition new_AuditLog :: "int \<Rightarrow> AuditLog" where
  "new_AuditLog n = \<lparr>entries = [], maxEntries = n\<rparr>"

definition default_AuditLog :: AuditLog where
  "default_AuditLog = new_AuditLog 10000"

text \<open>\<open>record(entry)\<close>: push, then cut back with \<open>slice(-maxEntries)\<close> when over the limit.\<close>

definition audit_record :: "AuditEntry \<Rightarrow> AuditLog \<Rightarrow> AuditLog" where
  "audit_record e l =
     (let pushed = entries l @ [e]
      in if int (length pushed) > maxEntries l
         then l\<lparr>entries := slice_from (- maxEntries l) pushed\<rparr>
         else l\<lparr>entries := pushed\<rparr>)"

definition recent :: "int \<Rightarrow> AuditLog \<Rightarrow> AuditEntry list" where
  "recent n l = slice_from (- n) (entries l)"

definition recent_default :: "AuditLog \<Rightarrow> AuditEntry list" where
  "recent_default l = recent 50 l"

definition forServer :: "string \<Rightarrow> AuditLog \<Rightarrow> AuditEntry list" where
  "forServer s l = filter (\<lambda>e. ae_server e = s) (entries l)"

definition count :: "AuditLog \<Rightarrow> nat" where
  "count l = length (entries l)"

definition SENSITIVE_KEYS :: "string list" where
  "SENSITIVE_KEYS =
     [''password'', ''secret'', ''token'', ''api_key'', ''apiKey'', ''authorization'']"

definition is_sensitive :: "string \<Rightarrow> bool" where
  "is_sensitive key = list_ex (\<lambda>s. str_includes (toLowerCase key) s) SENSITIVE_KEYS"

text \<open>
  \<open>redactSensitive\<close>: \<open>undefined\<close> stays \<open>undefined\<close>; otherwise a new object is filled
  key by key, in the enumeration order of \<open>Object.entries(args)\<close>.
\<close>

definition redactSensitive :: "jsval obj option \<Rightarrow> jsval obj option" where
  "redactSensitive args =
     (case args of
        None \<Rightarrow> None
      | Some kvs \<Rightarrow>
          Some (fold (\<lambda>(key, v) redacted.
                        if is_sensitive key then obj_set key (JStr ''[REDACTED]'') redacted
                        else obj_set key v redacted)
                     (object_entries kvs) []))"

text \<open>
  \<open>logInvocation\<close>; the timestamp \<open>new Date().toISOString()\<close> is read from the clock and
  is a parameter here.
\<close>

definition logInvocation ::
  "string \<Rightarrow> string \<Rightarrow> string \<Rightarrow> jsval obj option \<Rightarrow> audit_result option \<Rightarrow> int option
     \<Rightarrow> AuditLog \<Rightarrow> AuditLog" where
  "logInvocation now srv tool args res dur l =
     audit_record
       \<lparr>ae_timestamp = now, ae_server = srv, ae_tool = tool, ae_action = Invoke,
        ae_arguments = redactSensitive args, ae_result = res, ae_reason = None,
        ae_durationMs = dur\<rparr> l"

definition logDenial :: "string \<Rightarrow> string \<Rightarrow> string \<Rightarrow> string \<Rightarrow> AuditLog \<Rightarrow> AuditLog" where
  "logDenial now srv tool why l =
     audit_record
       \<lparr>ae_timestamp = now, ae_server = srv, ae_tool = tool, ae_action = Deny,
        ae_arguments = None, ae_result = None, ae_reason = Some why,
        ae_durationMs = None\<rparr> l"

section \<open>Permission guard (security.ts)\<close>

datatype PermissionScope = Read | Write | Execute | Network

record ToolPermission =
  tp_tool :: string
  tp_allow :: bool
  tp_scopes :: "PermissionScope list option"

record PermissionCheckResult =
  allowed :: bool
  reason :: "string option"

subsection \<open>The regular expression \<open>matchGlob\<close> builds\<close>

definition backslash :: char where
  "backslash = CHR 0x5C"

text \<open>The character class \<open>[.+^${}()|[\]\\]\<close> of the first \<open>replace\<close>.\<close>

definition escaped_class :: "char list" where
  "escaped_class = ''.+^${}()|[]'' @ [backslash]"

text \<open>\<open>pattern.replace(/[.+^${}()|[\]\\]/g, '\\$&')\<close>: a backslash before each of them.\<close>

definition escape_specials :: "string \<Rightarrow> string" where
  "escape_specials p = concat (map (\<lambda>c. if c \<in> set escaped_class then [backslash, c] else [c]) p)"

text \<open>\<open>.replace(/\*/g, '.*')\<close>.\<close>

definition star_to_dotstar :: "string \<Rightarrow> string" where
  "star_to_dotstar s = concat (map (\<lambda>c. if c = CHR ''*'' then ''.*'' else [c]) s)"

definition glob_source :: "string \<Rightarrow> string" where
  "glob_source p = ''^'' @ star_to_dotstar (escape_specials p) @ ''$''"

text \<open>
  \<open>new RegExp(source)\<close> and \<open>regex.test(value)\<close>, for the regular expressions this
  source can be: literal characters, backslash escapes of punctuation, \<open>.\<close>, the
  quantifiers \<open>*\<close> and \<open>?\<close> (each optionally followed by \<open>?\<close>, which makes it lazy and
  does not change what \<open>test\<close> answers), and the assertions \<open>^\<close> and \<open>$\<close>. A quantifier
  with nothing to repeat (at the start, after an assertion, after a lazy quantifier) is
  the \<open>SyntaxError\<close> the constructor throws. Syntax outside this fragment is reported
  as \<open>Unsupported\<close>; \<open>glob_source\<close> never produces it.
\<close>

datatype regex_atom = Lit char | AnyChar

datatype regex_tok = TAtom regex_atom | TStar | TQuest | TStart | TEnd

datatype regex_term = One regex_atom | Opt regex_atom | Star regex_atom | AssertStart | AssertEnd

datatype regex_error = SyntaxError | Unsupported

fun regex_lex :: "string \<Rightarrow> regex_error + regex_tok list" where
  "regex_lex [] = Inr []"
| "regex_lex (c # cs) =
     (if c = backslash then
        (case cs of
           [] \<Rightarrow> Inl SyntaxError
         | e # rest \<Rightarrow>
             if e \<in> set escaped_class \<or> e = CHR ''*'' \<or> e = CHR ''?''
             then map_sum id (Cons (TAtom (Lit e))) (regex_lex rest)
             else Inl Unsupported)
      else if c = CHR ''.'' then map_sum id (Cons (TAtom AnyChar)) (regex_lex cs)
      else if c = CHR ''*'' then map_sum id (Cons TStar) (regex_lex cs)
      else if c = CHR ''?'' then map_sum id (Cons TQuest) (regex_lex cs)
      else if c = CHR ''^'' then map_sum id (Cons TStart) (regex_lex cs)
      else if c = CHR ''$'' then map_sum id (Cons TEnd) (regex_lex cs)
      else if c \<in> set ''+()[]{}|'' then Inl Unsupported
      else map_sum id (Cons (TAtom (Lit c))) (regex_lex cs))"

fun regex_group :: "regex_tok list \<Rightarrow> regex_error + regex_term list" where
  "regex_group [] = Inr []"
| "regex_group (TAtom a # TStar # TQuest # ts) = map_sum id (Cons (Star a)) (regex_group ts)"
| "regex_group (TAtom a # TStar # ts) = map_sum id (Cons (Star a)) (regex_group ts)"
| "regex_group (TAtom a # TQuest # TQuest # ts) = map_sum id (Cons (Opt a)) (regex_group ts)"
| "regex_group (TAtom a # TQuest # ts) = map_sum id (Cons (Opt a)) (regex_group ts)"
| "regex_group (TAtom a # ts) = map_sum id (Cons (One a)) (regex_group ts)"
| "regex_group (TStart # ts) = map_sum id (Cons AssertStart) (regex_group ts)"
| "regex_group (TEnd # ts) = map_sum id (Cons AssertEnd) (regex_group ts)"
| "regex_group (TStar # ts) = Inl SyntaxError"
| "regex_group (TQuest # ts) = Inl SyntaxError"

definition RegExp_compile :: "string \<Rightarrow> regex_error + regex_term list" where
  "RegExp_compile src = (case regex_lex src of Inl e \<Rightarrow> Inl e | Inr toks \<Rightarrow> regex_group toks)"

text \<open>\<open>.\<close> matches any character but a line terminator.\<close>

fun atom_matches :: "regex_atom \<Rightarrow> char \<Rightarrow> bool" where
  "atom_matches (Lit x) c = (c = x)"
| "atom_matches AnyChar c = (c \<noteq> CHR 0x0A \<and> c \<noteq> CHR 0x0D)"

text \<open>
  A match of the terms starting at the current position; \<open>at_start\<close> says whether that
  position is the start of the input.
\<close>

fun regex_match_here :: "regex_term list \<Rightarrow> bool \<Rightarrow> string \<Rightarrow> bool" where
  "regex_match_here [] at_start s = True"
| "regex_match_here (AssertStart # ts) at_start s = (at_start \<and> regex_match_here ts at_start s)"
| "regex_match_here (AssertEnd # ts) at_start s = (s = [] \<and> regex_match_here ts at_start s)"
| "regex_match_here (One a # ts) at_start s =
     (case s of [] \<Rightarrow> False | c # cs \<Rightarrow> atom_matches a c \<and> regex_match_here ts False cs)"
| "regex_match_here (Opt a # ts) at_start s =
     ((case s of [] \<Rightarrow> False | c # cs \<Rightarrow> atom_matches a c \<and> regex_match_here ts False cs)
      \<or> regex_match_here ts at_start s)"
| "regex_match_here (Star a # ts) at_start s =
     (regex_match_here ts at_start s
      \<or> (case s of [] \<Rightarrow> False
          | c # cs \<Rightarrow> atom_matches a c \<and> regex_match_here (Star a # ts) False cs))"

text \<open>\<open>test\<close> looks for a match starting at any position of the input.\<close>

fun regex_search :: "regex_term list \<Rightarrow> bool \<Rightarrow> string \<Rightarrow> bool" where
  "regex_search ts at_start [] = regex_match_here ts at_start []"
| "regex_search ts at_start (c # cs) =
     (regex_match_here ts at_start (c # cs) \<or> regex_search ts False cs)"

definition regex_test :: "regex_term list \<Rightarrow> string \<Rightarrow> bool" where
  "regex_test ts s = regex_search ts True s"

definition matchGlob :: "string \<Rightarrow> string \<Rightarrow> regex_error + bool" where
  "matchGlob pattern v =
     (case RegExp_compile (glob_source pattern) of
        Inl e \<Rightarrow> Inl e
      | Inr r \<Rightarrow> Inr (regex_test r v))"

subsection \<open>Rule lookup and the permission check\<close>

text \<open>
  \<open>rules.filter(...).find((r) => matchGlob(r.tool, toolName))\<close>: the rules are tried in
  order, and an exception of \<open>matchGlob\<close> ends the search.
\<close>

fun find_glob :: "ToolPermission list \<Rightarrow> string \<Rightarrow> regex_error + ToolPermission option" where
  "find_glob [] toolName = Inr None"
| "find_glob (r # rs) toolName =
     (case matchGlob (tp_tool r) toolName of
        Inl e \<Rightarrow> Inl e
      | Inr True \<Rightarrow> Inr (Some r)
      | Inr False \<Rightarrow> find_glob rs toolName)"

definition findMatchingRule ::
  "ToolPermission list \<Rightarrow> string \<Rightarrow> regex_error + ToolPermission option" where
  "findMatchingRule rules toolName =
     (case find (\<lambda>r. tp_tool r = toolName) rules of
        Some exact \<Rightarrow> Inr (Some exact)
      | None \<Rightarrow>
          (case find_glob (filter (\<lambda>r. CHR ''*'' \<in> set (tp_tool r)) rules) toolName of
             Inl e \<Rightarrow> Inl e
           | Inr (Some globMatch) \<Rightarrow> Inr (Some globMatch)
           | Inr None \<Rightarrow> Inr (find (\<lambda>r. tp_tool r = ''*'') rules)))"

fun scope_name :: "PermissionScope \<Rightarrow> string" where
  "scope_name Read = ''read''"
| "scope_name Write = ''write''"
| "scope_name Execute = ''execute''"
| "scope_name Network = ''network''"

fun join :: "string \<Rightarrow> string list \<Rightarrow> string" where
  "join sep [] = []"
| "join sep [x] = x"
| "join sep (x # y # ys) = x @ sep @ join sep (y # ys)"

definition quoted :: "string \<Rightarrow> string" where
  "quoted s = [CHR 0x22] @ s @ [CHR 0x22]"

definition checkToolPermission ::
  "ToolPermission list \<Rightarrow> string \<Rightarrow> PermissionScope list option
     \<Rightarrow> regex_error + PermissionCheckResult" where
  "checkToolPermission rules toolName requiredScopes =
     (if rules = [] then Inr \<lparr>allowed = True, reason = None\<rparr>
      else
        (case findMatchingRule rules toolName of
           Inl e \<Rightarrow> Inl e
         | Inr None \<Rightarrow>
             Inr \<lparr>allowed = False,
                  reason = Some (''No permission rule matches tool '' @ quoted toolName)\<rparr>
         | Inr (Some m) \<Rightarrow>
             if \<not> tp_allow m then
               Inr \<lparr>allowed = False,
                    reason = Some (''Tool '' @ quoted toolName @ '' is explicitly denied'')\<rparr>
             else
               (case (requiredScopes, tp_scopes m) of
                  (Some req, Some have) \<Rightarrow>
                    (let missingScopes = filter (\<lambda>s. s \<notin> set have) req
                     in if req \<noteq> [] \<and> missingScopes \<noteq> []
                        then Inr \<lparr>allowed = False,
                                  reason = Some (''Tool '' @ quoted toolName @ '' missing scopes: ''
                                                 @ join '', '' (map scope_name missingScopes))\<rparr>
                        else Inr \<lparr>allowed = True, reason = None\<rparr>)
                | _ \<Rightarrow> Inr \<lparr>allowed = True, reason = None\<rparr>)))"

text \<open>
  The glob semantics the specification words: \<open>*\<close> matches any run of characters, every
  other character of the pattern matches only itself.
\<close>

fun glob_semantics :: "string \<Rightarrow> string \<Rightarrow> bool" where
  "glob_semantics [] v = (v = [])"
| "glob_semantics (p # ps) v =
     (if p = CHR ''*''
      then (glob_semantics ps v
            \<or> (case v of [] \<Rightarrow> False | c # cs \<Rightarrow> glob_semantics (p # ps) cs))
      else (case v of [] \<Rightarrow> False | c # cs \<Rightarrow> c = p \<and> glob_semantics ps cs))"

text \<open>
  The tokens and the terms of the regular expression of a pattern without \<open>?\<close>, read off
  the pattern directly.
\<close>

definition glob_tokens :: "string \<Rightarrow> regex_tok list" where
  "glob_tokens p =
     concat (map (\<lambda>c. if c = CHR ''*'' then [TAtom AnyChar, TStar] else [TAtom (Lit c)]) p)"

definition glob_terms :: "string \<Rightarrow> regex_term list" where
  "glob_terms p = map (\<lambda>c. if c = CHR ''*'' then Star AnyChar else One (Lit c)) p"

definition line_terminator :: "char \<Rightarrow> bool" where
  "line_terminator c = (c = CHR 0x0A \<or> c = CHR 0x0D)"

section \<open>Manifest (manifest.ts)\<close>

datatype TransportType = Stdio | Http

record ToolDefinition =
  td_name :: string
  td_description :: "string option"
  td_inputSchema :: jsval

record ServerConfig =
  sc_name :: string
  sc_command :: string
  sc_args :: "string list option"
  sc_env :: "string obj option"
  sc_transport :: TransportType
  sc_autoStart :: "bool option"
  sc_permissions :: "ToolPermission list option"

text \<open>
  \<open>ServerCapabilities\<close> of types.ts: \<open>tools?: {listChanged?}\<close>,
  \<open>resources?: {subscribe?, listChanged?}\<close>, \<open>prompts?: {listChanged?}\<close>, \<open>logging?: {}\<close>.
\<close>

record ServerCapabilities =
  cap_tools :: "bool option option"
  cap_resources :: "(bool option \<times> bool option) option"
  cap_prompts :: "bool option option"
  cap_logging :: "unit option"

record ServerManifestEntry =
  me_config :: ServerConfig
  me_capabilities :: "ServerCapabilities option"
  me_tools :: "ToolDefinition list option"
  me_resources :: "jsval list option"
  me_prompts :: "jsval list option"
  me_lastDiscovered :: "string option"

text \<open>
  The manifest. \<open>servers\<close> is a plain object used as a dictionary: its own properties are
  the list \<open>servers\<close>, in insertion order. The object also has a prototype, which the
  code can replace, because \<open>servers[name] = entry\<close> at the name \<open>__proto__\<close> runs the
  setter of \<open>Object.prototype\<close> and makes \<open>entry\<close> the prototype instead of creating a
  property. \<open>servers_proto\<close> is that prototype: \<open>None\<close> is \<open>Object.prototype\<close>, as in a fresh
  manifest, and \<open>Some e\<close> is the entry \<open>e\<close> (whose own prototype is \<open>Object.prototype\<close>).
  \<open>Object.prototype\<close> and the built-in objects it leads to are taken to carry their
  standard properties only, none of them named \<open>tools\<close>.
\<close>

record GolemManifest =
  version :: string
  servers :: "ServerManifestEntry obj"
  servers_proto :: "ServerManifestEntry option"

definition MANIFEST_VERSION :: string where
  "MANIFEST_VERSION = ''1.0''"

subsection \<open>Loading the manifest file\<close>

text \<open>
  \<open>load\<close> stores whatever \<open>JSON.parse\<close> returns (\<open>JSON.parse(raw) as GolemManifest\<close> is a
  cast, not a check), so the field \<open>this.manifest\<close> holds a JSON value. The file system
  is the outcome of \<open>existsSync\<close> and \<open>readFileSync\<close>; \<open>JSON.parse\<close> is a parameter that
  returns \<open>None\<close> where the library throws.
\<close>

datatype file_outcome = NoFile | ReadThrows | Contents string

record ManifestManager =
  manifest :: jsval

definition empty_manifest :: jsval where
  "empty_manifest = JObj [(''version'', JStr MANIFEST_VERSION), (''servers'', JObj [])]"

definition new_ManifestManager :: ManifestManager where
  "new_ManifestManager = \<lparr>manifest = empty_manifest\<rparr>"

definition load ::
  "(string \<Rightarrow> jsval option) \<Rightarrow> file_outcome \<Rightarrow> ManifestManager \<Rightarrow> jsval \<times> ManifestManager" where
  "load JSON_parse file mgr =
     (let mgr' =
        (case file of
           NoFile \<Rightarrow> mgr
         | ReadThrows \<Rightarrow> mgr\<lparr>manifest := empty_manifest\<rparr>
         | Contents raw \<Rightarrow>
             (case JSON_parse raw of
                Some v \<Rightarrow> mgr\<lparr>manifest := v\<rparr>
              | None \<Rightarrow> mgr\<lparr>manifest := empty_manifest\<rparr>))
      in (manifest mgr', mgr'))"

text \<open>
  The expression \<open>this.manifest.servers\<close>, which every other operation of the manager
  evaluates first: a \<open>TypeError\<close> on \<open>null\<close>, the own property of an object, and
  \<open>undefined\<close> (here \<open>None\<close>) on anything else.
\<close>

datatype js_error = TypeError

fun read_servers :: "jsval \<Rightarrow> js_error + jsval option" where
  "read_servers JNull = Inl TypeError"
| "read_servers (JObj ps) = Inr (obj_get ps ''servers'')"
| "read_servers v = Inr None"

text \<open>
  \<open>JSON.parse\<close> on the texts the examples below use; every other text is refused. It
  stands in for the library only at those texts.
\<close>

definition sample_JSON_parse :: "string \<Rightarrow> jsval option" where
  "sample_JSON_parse s =
     (if s = ''null'' then Some JNull
      else if s = ''true'' then Some (JBool True)
      else if s = ''42'' then Some (JNum 42)
      else if s = ''[]'' then Some (JArr [])
      else if s = ''{}'' then Some (JObj [])
      else None)"

subsection \<open>Tool lookup in a manifest of the declared type\<close>

text \<open>\<open>String.prototype.indexOf\<close> of one character; \<open>None\<close> is the result \<open>-1\<close>.\<close>

fun indexOf :: "string \<Rightarrow> char \<Rightarrow> nat option" where
  "indexOf [] c = None"
| "indexOf (x # xs) c = (if x = c then Some 0 else map_option Suc (indexOf xs c))"

text \<open>
  \<open>this.manifest.servers[config.name] = {config}\<close>. At the name \<open>__proto__\<close> the assignment
  replaces the prototype, unless the object has an own property of that name, which it then
  overwrites like any other; at every other name it sets an own property.
\<close>

definition addServer :: "ServerConfig \<Rightarrow> GolemManifest \<Rightarrow> GolemManifest" where
  "addServer config m =
     (let entry = \<lparr>me_config = config, me_capabilities = None, me_tools = None, me_resources = None,
                    me_prompts = None, me_lastDiscovered = None\<rparr>
      in if sc_name config = ''__proto__'' \<and> obj_get (servers m) ''__proto__'' = None
         then m\<lparr>servers_proto := Some entry\<rparr>
         else m\<lparr>servers := obj_set (sc_name config) entry (servers m)\<rparr>)"

text \<open>\<open>entry.tools?.find((t) => t.name === n)\<close>.\<close>

definition find_tool_in :: "ServerManifestEntry \<Rightarrow> string \<Rightarrow> ToolDefinition option" where
  "find_tool_in entry n =
     (case me_tools entry of None \<Rightarrow> None | Some ts \<Rightarrow> find (\<lambda>t. td_name t = n) ts)"

text \<open>The loop over \<open>Object.entries(this.manifest.servers)\<close> of the unqualified case.\<close>

fun scan_servers :: "(string \<times> ServerManifestEntry) list \<Rightarrow> string \<Rightarrow> (string \<times> ToolDefinition) option" where
  "scan_servers [] q = None"
| "scan_servers ((name, entry) # rest) q =
     (case find_tool_in entry q of
        Some t \<Rightarrow> Some (name, t)
      | None \<Rightarrow> scan_servers rest q)"

text \<open>
  The value of \<open>entry?.tools\<close> in the qualified case, as far as the code goes on to use it:
  \<open>undefined\<close>, an array of tool definitions, or an object that is not an array (on which
  \<open>entry.tools.find\<close> is \<open>undefined\<close>, so that calling it is a \<open>TypeError\<close>).
\<close>

datatype tools_value = Undefined | ToolArray "ToolDefinition list" | OtherObject

definition entry_tools :: "ServerManifestEntry \<Rightarrow> tools_value" where
  "entry_tools entry = (case me_tools entry of None \<Rightarrow> Undefined | Some ts \<Rightarrow> ToolArray ts)"

text \<open>
  \<open>servers[name]?.tools\<close> when \<open>name\<close> is not an own property, so that the lookup goes to
  the prototype. With \<open>Object.prototype\<close> as the prototype the value found is \<open>undefined\<close>,
  a built-in function or \<open>Object.prototype\<close> itself, and none has \<open>tools\<close>. With an entry
  \<open>e\<close> as the prototype, \<open>__proto__\<close> yields \<open>e\<close> itself and the names of \<open>e\<close>'s own
  properties yield their values: of those only \<open>capabilities\<close> can have a property
  \<open>tools\<close>, the object \<open>{listChanged?}\<close>; a config, an array and a date have none.
\<close>

definition inherited_tools :: "ServerManifestEntry option \<Rightarrow> string \<Rightarrow> tools_value" where
  "inherited_tools proto name =
     (case proto of
        None \<Rightarrow> Undefined
      | Some e \<Rightarrow>
          if name = ''__proto__'' then entry_tools e
          else if name = ''capabilities'' then
            (case me_capabilities e of
               None \<Rightarrow> Undefined
             | Some caps \<Rightarrow> (case cap_tools caps of None \<Rightarrow> Undefined | Some _ \<Rightarrow> OtherObject))
          else Undefined)"

text \<open>
  \<open>findTool\<close>. The unqualified case scans \<open>Object.entries\<close>, which lists own properties
  only; the qualified case reads \<open>servers[serverName]\<close>, which falls back on the prototype.
\<close>

definition findTool :: "GolemManifest \<Rightarrow> string \<Rightarrow> js_error + (string \<times> ToolDefinition) option" where
  "findTool m qualifiedName =
     (case indexOf qualifiedName CHR ''.'' of
        None \<Rightarrow> Inr (scan_servers (object_entries (servers m)) qualifiedName)
      | Some dotIndex \<Rightarrow>
          (let serverName = take dotIndex qualifiedName;
               toolName = drop (dotIndex + 1) qualifiedName;
               tools = (case obj_get (servers m) serverName of
                          Some entry \<Rightarrow> entry_tools entry
                        | None \<Rightarrow> inherited_tools (servers_proto m) serverName)
           in case tools of
                Undefined \<Rightarrow> Inr None
              | OtherObject \<Rightarrow> Inl TypeError
              | ToolArray ts \<Rightarrow>
                  (case find (\<lambda>t. td_name t = toolName) ts of
                     Some t \<Rightarrow> Inr (Some (serverName, t))
                   | None \<Rightarrow> Inr None)))"


text \<open>The fixtures of the repository's manifest tests: a stdio server and a tool without description.\<close>

definition stdio_config :: "string \<Rightarrow> string \<Rightarrow> ServerConfig" where
  "stdio_config name cmd =
     \<lparr>sc_name = name, sc_command = cmd, sc_args = None, sc_env = None, sc_transport = Stdio,
      sc_autoStart = None, sc_permissions = None\<rparr>"



definition new_manifest :: GolemManifest where
  "new_manifest = \<lparr>version = MANIFEST_VERSION, servers = [], servers_proto = None\<rparr>"

section \<open>Stdio transport (transport.ts)\<close>

text \<open>
  A string is the sequence of its UTF-16 code units, a chunk of the child's output the
  sequence of its bytes. \<open>units\<close> gives the code units of a literal whose characters are
  below 256.
\<close>

type_synonym jsstring = "nat list"

type_synonym bytes = "nat list"

definition units :: "string \<Rightarrow> jsstring" where
  "units s = map of_char s"

datatype transport_event = MessageEvent jsval | ErrorEvent jsstring | CloseEvent "int option"

record StdioTransport =
  buffer :: jsstring
  isConnected :: bool

text \<open>
  The listeners registered on the transport's emitter, by the outcome of \<open>emit\<close>.
  \<open>message_returns v\<close>: \<open>emit('message', v)\<close> returns, that is, no \<open>message\<close> listener throws
  on \<open>v\<close> (none registered is one such case). \<open>error_returns e\<close>: \<open>emit('error', err)\<close>
  returns for the error with message \<open>e\<close>, that is, an \<open>error\<close> listener is registered and
  none throws; with no \<open>error\<close> listener \<open>emit\<close> throws \<open>err\<close> itself. The listener that
  \<open>MCPProtocol\<close> registers re-emits the error on the protocol's own emitter, so it returns
  only when an \<open>error\<close> listener is registered there as well. Listeners that call back into
  the transport are not covered.
\<close>

record listeners =
  message_returns :: "jsval \<Rightarrow> bool"
  error_returns :: "jsstring \<Rightarrow> bool"

definition newline :: nat where
  "newline = 0x0A"

text \<open>\<open>s.split('\n')\<close>: never empty, the empty string gives one empty piece.\<close>

fun split_newline :: "jsstring \<Rightarrow> jsstring list" where
  "split_newline [] = [[]]"
| "split_newline (c # cs) =
     (if c = newline then [] # split_newline cs
      else (case split_newline cs of l # ls \<Rightarrow> (c # l) # ls | [] \<Rightarrow> [[c]]))"

text \<open>
  \<open>String.prototype.trim\<close> removes white space and line terminators: TAB, LF, VT, FF, CR,
  space, U+00A0, U+1680, U+2000 to U+200A, U+2028, U+2029, U+202F, U+205F, U+3000 and
  U+FEFF.
\<close>

definition is_whitespace :: "nat \<Rightarrow> bool" where
  "is_whitespace u =
     (u \<in> {0x09, 0x0A, 0x0B, 0x0C, 0x0D, 0x20, 0xA0, 0x1680, 0x2028, 0x2029, 0x202F, 0x205F,
            0x3000, 0xFEFF}
      \<or> (0x2000 \<le> u \<and> u \<le> 0x200A))"

definition trim :: "jsstring \<Rightarrow> jsstring" where
  "trim s = rev (dropWhile is_whitespace (rev (dropWhile is_whitespace s)))"

text \<open>
  The body of the loop of \<open>handleData\<close> for one line: the events emitted, in order, and
  whether the body completes (\<open>False\<close>: an exception leaves it). \<open>JSON.parse\<close> is a
  parameter that returns \<open>None\<close> where the library throws. A \<open>message\<close> listener that
  throws does so inside the \<open>try\<close>, so the \<open>catch\<close> emits the parse failure for a line that
  parsed. The \<open>emit('error', \<dots>)\<close> of the \<open>catch\<close> is not guarded: when it throws, the
  exception leaves \<open>handleData\<close>.
\<close>

definition line_events ::
  "(jsstring \<Rightarrow> jsval option) \<Rightarrow> listeners \<Rightarrow> jsstring \<Rightarrow> transport_event list \<times> bool" where
  "line_events JSON_parse ls line =
     (let trimmed = trim line;
          failure = units ''Failed to parse JSON-RPC message: '' @ take 200 trimmed
      in if trimmed = [] then ([], True)
         else (case JSON_parse trimmed of
                 Some parsed \<Rightarrow>
                   if message_returns ls parsed then ([MessageEvent parsed], True)
                   else ([MessageEvent parsed, ErrorEvent failure], error_returns ls failure)
               | None \<Rightarrow> ([ErrorEvent failure], error_returns ls failure)))"

text \<open>The loop \<open>for (const line of lines)\<close>: it ends at the first line whose body throws.\<close>

fun run_lines ::
  "(jsstring \<Rightarrow> jsval option) \<Rightarrow> listeners \<Rightarrow> jsstring list \<Rightarrow> transport_event list \<times> bool" where
  "run_lines JSON_parse ls [] = ([], True)"
| "run_lines JSON_parse ls (line # rest) =
     (case line_events JSON_parse ls line of
        (ev, True) \<Rightarrow> (case run_lines JSON_parse ls rest of (evs, ok) \<Rightarrow> (ev @ evs, ok))
      | (ev, False) \<Rightarrow> (ev, False))"

text \<open>
  \<open>handleData\<close>: the new transport, the events emitted, in order, and whether the call
  returns (\<open>False\<close>: it throws). The buffer is replaced before the loop, so the lines
  after the one that throws are lost.
\<close>

definition handleData ::
  "(jsstring \<Rightarrow> jsval option) \<Rightarrow> listeners \<Rightarrow> jsstring \<Rightarrow> StdioTransport
     \<Rightarrow> StdioTransport \<times> transport_event list \<times> bool" where
  "handleData JSON_parse ls data t =
     (let lines = split_newline (buffer t @ data);
          rest = (if lines = [] then [] else last lines)
      in (t\<lparr>buffer := rest\<rparr>, run_lines JSON_parse ls (butlast lines)))"

text \<open>
  The listener on the child's stdout, \<open>(chunk) => this.handleData(chunk.toString('utf-8'))\<close>.
  Each chunk is decoded on its own; \<open>Buffer.toString\<close> is a parameter.
\<close>

definition on_stdout_data ::
  "(bytes \<Rightarrow> jsstring) \<Rightarrow> (jsstring \<Rightarrow> jsval option) \<Rightarrow> listeners \<Rightarrow> bytes \<Rightarrow> StdioTransport
     \<Rightarrow> StdioTransport \<times> transport_event list \<times> bool" where
  "on_stdout_data toString JSON_parse ls chunk t = handleData JSON_parse ls (toString chunk) t"

text \<open>
  The chunks of the child's output, handed to the stdout listener one after the other.
  An exception that leaves the listener is an uncaught exception of the process:
  \<open>resumes\<close> tells whether the process handles it and goes on reading (the repository
  installs no handler, so by default it does not). The last component tells whether every
  call returned.
\<close>

fun feed ::
  "bool \<Rightarrow> (bytes \<Rightarrow> jsstring) \<Rightarrow> (jsstring \<Rightarrow> jsval option) \<Rightarrow> listeners \<Rightarrow> bytes list
     \<Rightarrow> StdioTransport \<Rightarrow> StdioTransport \<times> transport_event list \<times> bool" where
  "feed resumes toString JSON_parse ls [] t = (t, [], True)"
| "feed resumes toString JSON_parse ls (chunk # chunks) t =
     (case on_stdout_data toString JSON_parse ls chunk t of
        (t1, ev1, returned) \<Rightarrow>
          if returned \<or> resumes then
            (case feed resumes toString JSON_parse ls chunks t1 of
               (t2, ev2, ok) \<Rightarrow> (t2, ev1 @ ev2, returned \<and> ok))
          else (t1, ev1, False))"

text \<open>
  \<open>JSON.parse\<close> and \<open>Buffer.toString('utf-8')\<close> on the inputs the examples below use. The
  parser knows \<open>null\<close> and \<open>{}\<close> and refuses every other text. The decoder knows the chunks
  of ASCII bytes, which decode to themselves, and three chunks around the two bytes
  \<open>C2 A0\<close> of U+00A0: whole they decode to that character, and each byte alone decodes to
  U+FFFD. Both stand in for the library only at those inputs.
\<close>

definition sample_JSON_parse_units :: "jsstring \<Rightarrow> jsval option" where
  "sample_JSON_parse_units s =
     (if s = units ''null'' then Some JNull
      else if s = units ''{}'' then Some (JObj [])
      else None)"

definition sample_toString :: "bytes \<Rightarrow> jsstring" where
  "sample_toString chunk =
     (if list_all (\<lambda>b. b < 0x80) chunk then chunk
      else if chunk = units ''{}'' @ [0xC2, 0xA0, 0x0A] then units ''{}'' @ [0xA0, 0x0A]
      else if chunk = units ''{}'' @ [0xC2] then units ''{}'' @ [0xFFFD]
      else if chunk = [0xA0, 0x0A] then [0xFFFD, 0x0A]
      else [])"

text \<open>
  Two sets of listeners: both kinds registered and none throwing, and \<open>message\<close> listeners
  only (no \<open>error\<close> listener, or the one of \<open>MCPProtocol\<close> with none behind it).
\<close>

definition returning_listeners :: listeners where
  "returning_listeners = \<lparr>message_returns = (\<lambda>v. True), error_returns = (\<lambda>e. True)\<rparr>"

definition no_error_listener :: listeners where
  "no_error_listener = \<lparr>message_returns = (\<lambda>v. True), error_returns = (\<lambda>e. False)\<rparr>"

section \<open>Protocol engine (protocol.ts)\<close>

text \<open>
  The engine runs on an event loop: a call of \<open>request\<close>, a timer that fires, a message
  from the transport, the completion of a \<open>send\<close>, the close of the transport and the
  sweep at the end of \<open>shutdown\<close> are the events, and each runs to completion on the
  state. A request's promise is identified by the request id; every call of its
  \<open>resolve\<close> or \<open>reject\<close> is logged, with whether the pending table still held the id at
  that moment. The promise is settled by the first call logged for it. Request ids are
  natural numbers (the counter is not followed past \<open>2^53\<close>).
\<close>

datatype id_field = IdAbsent | IdNull | IdNum nat | IdStr string

record JsonRpcError =
  err_code :: int
  err_message :: string
  err_data :: "jsval option"

record JsonRpcMessage =
  msg_id :: id_field
  msg_method :: "string option"
  msg_params :: "jsval option"
  msg_result :: "jsval option"
  msg_error :: "JsonRpcError option"

datatype protocol_error =
    TimedOut string nat nat
  | MCPError JsonRpcError
  | SendError string
  | TransportClosed "int option"
  | ShuttingDown

datatype settlement = Resolve "jsval option" | Reject protocol_error

record settle_call =
  call_id :: nat
  call_outcome :: settlement
  call_entry_present :: bool

datatype protocol_event = NotificationEmitted string jsval | CloseEmitted "int option"

record PendingRequest =
  pr_method :: string

text \<open>
  \<open>timers\<close> holds the armed timers, each with the \<open>method\<close> its callback has captured;
  \<open>in_flight\<close> the ids whose \<open>transport.send\<close> has not completed.
\<close>

record MCPProtocol =
  nextId :: nat
  pending :: "(nat \<times> PendingRequest) list"
  timers :: "(nat \<times> string) list"
  in_flight :: "nat list"
  initialized :: bool
  timeout :: nat
  calls :: "settle_call list"
  emitted :: "protocol_event list"

definition new_MCPProtocol :: "nat \<Rightarrow> MCPProtocol" where
  "new_MCPProtocol t =
     \<lparr>nextId = 1, pending = [], timers = [], in_flight = [], initialized = False, timeout = t,
      calls = [], emitted = []\<rparr>"

definition default_MCPProtocol :: MCPProtocol where
  "default_MCPProtocol = new_MCPProtocol 30000"

text \<open>A call of the \<open>resolve\<close> or \<open>reject\<close> of request \<open>i\<close>.\<close>

definition settle :: "nat \<Rightarrow> settlement \<Rightarrow> MCPProtocol \<Rightarrow> MCPProtocol" where
  "settle i outcome s =
     s\<lparr>calls := calls s @ [\<lparr>call_id = i, call_outcome = outcome,
                              call_entry_present = (obj_get (pending s) i \<noteq> None)\<rparr>]\<rparr>"

definition clearTimeout :: "nat \<Rightarrow> MCPProtocol \<Rightarrow> MCPProtocol" where
  "clearTimeout i s = s\<lparr>timers := obj_delete i (timers s)\<rparr>"

definition pending_delete :: "nat \<Rightarrow> MCPProtocol \<Rightarrow> MCPProtocol" where
  "pending_delete i s = s\<lparr>pending := obj_delete i (pending s)\<rparr>"

text \<open>\<open>request(method)\<close>: the id, and the state once the timer is armed, the entry stored
  and the message handed to \<open>transport.send\<close>.\<close>

definition request :: "string \<Rightarrow> MCPProtocol \<Rightarrow> nat \<times> MCPProtocol" where
  "request method s =
     (let i = nextId s
      in (i, s\<lparr>nextId := i + 1,
               timers := obj_set i method (timers s),
               pending := obj_set i \<lparr>pr_method = method\<rparr> (pending s),
               in_flight := in_flight s @ [i]\<rparr>))"

text \<open>The timer callback of request \<open>i\<close>, which captured \<open>method\<close>.\<close>

definition on_timeout :: "nat \<Rightarrow> string \<Rightarrow> MCPProtocol \<Rightarrow> MCPProtocol" where
  "on_timeout i method s =
     settle i (Reject (TimedOut method i (timeout s))) (pending_delete i (clearTimeout i s))"

text \<open>The \<open>catch\<close> handler of \<open>transport.send\<close> for request \<open>i\<close>.\<close>

definition on_send_failed :: "nat \<Rightarrow> string \<Rightarrow> MCPProtocol \<Rightarrow> MCPProtocol" where
  "on_send_failed i err s =
     settle i (Reject (SendError err)) (clearTimeout i (pending_delete i s))"

definition handleMessage :: "JsonRpcMessage \<Rightarrow> MCPProtocol \<Rightarrow> MCPProtocol" where
  "handleMessage msg s =
     (case msg_id msg of
        IdNum i \<Rightarrow>
          (case obj_get (pending s) i of
             Some p \<Rightarrow>
               (let s1 = clearTimeout i (pending_delete i s)
                in case msg_error msg of
                     Some e \<Rightarrow> settle i (Reject (MCPError e)) s1
                   | None \<Rightarrow> settle i (Resolve (msg_result msg)) s1)
           | None \<Rightarrow> s)
      | IdStr x \<Rightarrow> s
      | IdNull \<Rightarrow> s
      | IdAbsent \<Rightarrow>
          (case msg_method msg of
             Some m \<Rightarrow>
               s\<lparr>emitted := emitted s
                    @ [NotificationEmitted m (case msg_params msg of Some ps \<Rightarrow> ps | None \<Rightarrow> JObj [])]\<rparr>
           | None \<Rightarrow> s))"

text \<open>
  The loop \<open>for (const [id, pending] of this.pending)\<close> of \<open>handleClose\<close> and \<open>shutdown\<close>:
  clear the timer, reject, delete the entry.
\<close>

definition reject_one :: "protocol_error \<Rightarrow> nat \<Rightarrow> MCPProtocol \<Rightarrow> MCPProtocol" where
  "reject_one err i s = pending_delete i (settle i (Reject err) (clearTimeout i s))"

definition reject_all :: "protocol_error \<Rightarrow> MCPProtocol \<Rightarrow> MCPProtocol" where
  "reject_all err s = fold (reject_one err) (map fst (pending s)) s"

definition handleClose :: "int option \<Rightarrow> MCPProtocol \<Rightarrow> MCPProtocol" where
  "handleClose code s =
     (let s1 = reject_all (TransportClosed code) (s\<lparr>initialized := False\<rparr>)
      in s1\<lparr>emitted := emitted s1 @ [CloseEmitted code]\<rparr>)"

text \<open>The end of \<open>shutdown\<close>, after its best-effort request has settled.\<close>

definition shutdown_sweep :: "MCPProtocol \<Rightarrow> MCPProtocol" where
  "shutdown_sweep s = reject_all ShuttingDown (s\<lparr>initialized := False\<rparr>)"

datatype loop_event =
    CallRequest string
  | TimerFires nat
  | MessageArrives JsonRpcMessage
  | SendCompletes nat
  | SendFails nat string
  | TransportCloses "int option"
  | ShutdownSweeps

text \<open>
  One turn of the event loop; \<open>None\<close> when the event cannot happen in this state (a
  timer that is not armed cannot fire, a send that is not in flight cannot complete).
\<close>

fun step :: "loop_event \<Rightarrow> MCPProtocol \<Rightarrow> MCPProtocol option" where
  "step (CallRequest method) s = Some (snd (request method s))"
| "step (TimerFires i) s =
     (case obj_get (timers s) i of
        Some method \<Rightarrow> Some (on_timeout i method s)
      | None \<Rightarrow> None)"
| "step (MessageArrives msg) s = Some (handleMessage msg s)"
| "step (SendCompletes i) s =
     (if i \<in> set (in_flight s) then Some (s\<lparr>in_flight := removeAll i (in_flight s)\<rparr>) else None)"
| "step (SendFails i err) s =
     (if i \<in> set (in_flight s)
      then Some (on_send_failed i err (s\<lparr>in_flight := removeAll i (in_flight s)\<rparr>))
      else None)"
| "step (TransportCloses code) s = Some (handleClose code s)"
| "step ShutdownSweeps s = Some (shutdown_sweep s)"

fun run :: "loop_event list \<Rightarrow> MCPProtocol \<Rightarrow> MCPProtocol option" where
  "run [] s = Some s"
| "run (e # es) s = (case step e s of None \<Rightarrow> None | Some s' \<Rightarrow> run es s')"

definition calls_for :: "nat \<Rightarrow> MCPProtocol \<Rightarrow> settle_call list" where
  "calls_for i s = filter (\<lambda>c. call_id c = i) (calls s)"

text \<open>What the caller of request \<open>i\<close> observes: the first settlement of its promise.\<close>

definition outcome_of :: "nat \<Rightarrow> MCPProtocol \<Rightarrow> settlement option" where
  "outcome_of i s = map_option call_outcome (find (\<lambda>c. call_id c = i) (calls s))"

definition response :: "nat \<Rightarrow> jsval option \<Rightarrow> JsonRpcError option \<Rightarrow> JsonRpcMessage" where
  "response i res err =
     \<lparr>msg_id = IdNum i, msg_method = None, msg_params = None, msg_result = res, msg_error = err\<rparr>"

subsection \<open>Invariants of the engine\<close>

text \<open>
  Every id in use is below the counter, and a request whose timer is still armed has had
  no call of its \<open>resolve\<close> or \<open>reject\<close>.
\<close>

definition engine_inv :: "MCPProtocol \<Rightarrow> bool" where
  "engine_inv s =
     ((\<forall>k. obj_get (timers s) k \<noteq> None \<longrightarrow> k < nextId s \<and> calls_for k s = [])
      \<and> (\<forall>k. obj_get (pending s) k \<noteq> None \<longrightarrow> k < nextId s)
      \<and> (\<forall>k \<in> set (in_flight s). k < nextId s)
      \<and> (\<forall>c \<in> set (calls s). call_id c < nextId s))"

text \<open>Request \<open>i\<close> has been issued and has neither a timer nor a pending entry.\<close>

definition expired :: "nat \<Rightarrow> MCPProtocol \<Rightarrow> bool" where
  "expired i s = (obj_get (timers s) i = None \<and> obj_get (pending s) i = None \<and> i < nextId s)"

section \<open>Server manager (server-manager.ts)\<close>

datatype ServerStatus = Stopped | Starting | Running | Errored

record ServerState =
  st_name :: string
  st_status :: ServerStatus
  st_pid :: "nat option"
  st_capabilities :: "jsval option"
  st_serverInfo :: "jsval option"
  st_toolCount :: "nat option"
  st_startedAt :: "string option"
  st_error :: "string option"

text \<open>
  An \<open>MCPClient\<close> object is identified by the number of clients constructed before it.
  What a client does when the manager calls it is the environment's choice: whether
  \<open>connect\<close> succeeds (and with which capabilities and server info) or throws a message,
  and whether \<open>listTools\<close> returns a number of tools or throws.
\<close>

datatype connect_outcome = ConnectFails string | Connects "jsval option" "jsval option"

record client_behaviour =
  cb_connect :: connect_outcome
  cb_listTools :: "nat option"

record ManagedServer =
  ms_config :: ServerConfig
  ms_client :: nat
  ms_state :: ServerState

text \<open>
  The manager: the \<open>Map\<close> of servers, the \<open>stateChange\<close> events emitted so far (listeners
  are taken not to throw), the number of clients constructed, and the clients whose
  \<open>disconnect\<close> has been called, in order.
\<close>

record ServerManager =
  sm_servers :: "(string \<times> ManagedServer) list"
  sm_events :: "(string \<times> ServerState) list"
  sm_clients_made :: nat
  sm_disconnected :: "nat list"

definition new_ServerManager :: ServerManager where
  "new_ServerManager = \<lparr>sm_servers = [], sm_events = [], sm_clients_made = 0, sm_disconnected = []\<rparr>"

datatype manager_error = AlreadyRunning string | NotFound string | StartupFailed string

definition error_message :: "manager_error \<Rightarrow> string" where
  "error_message e =
     (case e of
        AlreadyRunning n \<Rightarrow> ''Server '' @ quoted n @ '' is already running''
      | NotFound n \<Rightarrow> ''Server '' @ quoted n @ '' not found''
      | StartupFailed msg \<Rightarrow> msg)"

definition initial_state :: "string \<Rightarrow> ServerStatus \<Rightarrow> ServerState" where
  "initial_state name status =
     \<lparr>st_name = name, st_status = status, st_pid = None, st_capabilities = None,
      st_serverInfo = None, st_toolCount = None, st_startedAt = None, st_error = None\<rparr>"

definition emitStateChange :: "string \<Rightarrow> ServerState \<Rightarrow> ServerManager \<Rightarrow> ServerManager" where
  "emitStateChange name state s = s\<lparr>sm_events := sm_events s @ [(name, state)]\<rparr>"

text \<open>
  The \<open>state\<close> object of a managed server is shared with the entry in the map: an
  assignment to one of its fields changes the entry, if the map still holds it.
\<close>

definition set_state :: "string \<Rightarrow> ServerState \<Rightarrow> ServerManager \<Rightarrow> ServerManager" where
  "set_state name state s =
     s\<lparr>sm_servers := map (\<lambda>(k, m). if k = name then (k, m\<lparr>ms_state := state\<rparr>) else (k, m))
                          (sm_servers s)\<rparr>"

definition stopInternal :: "string \<Rightarrow> ServerManager \<Rightarrow> ServerManager" where
  "stopInternal name s =
     (case obj_get (sm_servers s) name of
        None \<Rightarrow> s
      | Some managed \<Rightarrow>
          (let s1 = s\<lparr>sm_disconnected := sm_disconnected s @ [ms_client managed]\<rparr>;
               state = (ms_state managed)
                 \<lparr>st_status := Stopped, st_startedAt := None, st_capabilities := None,
                  st_serverInfo := None, st_toolCount := None, st_error := None\<rparr>;
               s2 = s1\<lparr>sm_servers := obj_delete name (sm_servers s1)\<rparr>
           in emitStateChange name state s2))"

text \<open>\<open>start\<close> from the construction of the client on.\<close>

definition start_fresh ::
  "(nat \<Rightarrow> client_behaviour) \<Rightarrow> string \<Rightarrow> ServerConfig \<Rightarrow> ServerManager
     \<Rightarrow> (manager_error + ServerState) \<times> ServerManager" where
  "start_fresh env now config s =
     (let name = sc_name config;
          client = sm_clients_made s;
          state = initial_state name Starting;
          s1 = s\<lparr>sm_clients_made := client + 1,
                 sm_servers := obj_set name \<lparr>ms_config = config, ms_client = client, ms_state = state\<rparr>
                                 (sm_servers s)\<rparr>;
          s2 = emitStateChange name state s1
      in case cb_connect (env client) of
           Connects caps info \<Rightarrow>
             (let running = state\<lparr>st_status := Running, st_capabilities := caps,
                                  st_serverInfo := info, st_startedAt := Some now\<rparr>;
                  counted = running\<lparr>st_toolCount :=
                              Some (case cb_listTools (env client) of Some n \<Rightarrow> n | None \<Rightarrow> 0)\<rparr>
              in (Inr counted, emitStateChange name counted (set_state name counted s2)))
         | ConnectFails msg \<Rightarrow>
             (let failed = state\<lparr>st_status := Errored, st_error := Some msg\<rparr>;
                  s3 = s2\<lparr>sm_servers := obj_delete name (sm_servers s2)\<rparr>
              in (Inl (StartupFailed msg), emitStateChange name failed s3)))"

definition start ::
  "(nat \<Rightarrow> client_behaviour) \<Rightarrow> string \<Rightarrow> ServerConfig \<Rightarrow> ServerManager
     \<Rightarrow> (manager_error + ServerState) \<times> ServerManager" where
  "start env now config s =
     (case obj_get (sm_servers s) (sc_name config) of
        Some existing \<Rightarrow>
          if st_status (ms_state existing) = Running
          then (Inl (AlreadyRunning (sc_name config)), s)
          else start_fresh env now config (stopInternal (sc_name config) s)
      | None \<Rightarrow> start_fresh env now config s)"

definition list_states :: "ServerManager \<Rightarrow> ServerState list" where
  "list_states s = map (\<lambda>(k, m). ms_state m) (sm_servers s)"

definition get_state :: "ServerManager \<Rightarrow> string \<Rightarrow> ServerState option" where
  "get_state s name = map_option ms_state (obj_get (sm_servers s) name)"

definition getClient :: "ServerManager \<Rightarrow> string \<Rightarrow> nat option" where
  "getClient s name =
     (case obj_get (sm_servers s) name of
        Some managed \<Rightarrow> if st_status (ms_state managed) = Running then Some (ms_client managed) else None
      | None \<Rightarrow> None)"

text \<open>One turn of the loop of \<open>startAll\<close>, on the results map and the manager.\<close>

definition startAll_step ::
  "(nat \<Rightarrow> client_behaviour) \<Rightarrow> string \<Rightarrow> ServerConfig
     \<Rightarrow> (string \<times> ServerState) list \<times> ServerManager \<Rightarrow> (string \<times> ServerState) list \<times> ServerManager" where
  "startAll_step env now config rs =
     (case rs of (results, s) \<Rightarrow>
        if sc_autoStart config = Some False then
          (let state = initial_state (sc_name config) Stopped;
               client = sm_clients_made s;
               s1 = s\<lparr>sm_clients_made := client + 1,
                      sm_servers := obj_set (sc_name config)
                                      \<lparr>ms_config = config, ms_client = client, ms_state = state\<rparr>
                                      (sm_servers s)\<rparr>
           in (obj_set (sc_name config) state results, s1))
        else
          (case start env now config s of
             (Inr state, s1) \<Rightarrow> (obj_set (sc_name config) state results, s1)
           | (Inl err, s1) \<Rightarrow>
               (obj_set (sc_name config)
                  ((initial_state (sc_name config) Errored)\<lparr>st_error := Some (error_message err)\<rparr>)
                  results, s1)))"

definition startAll ::
  "(nat \<Rightarrow> client_behaviour) \<Rightarrow> string \<Rightarrow> ServerConfig list \<Rightarrow> ServerManager
     \<Rightarrow> (string \<times> ServerState) list \<times> ServerManager" where
  "startAll env now configs s = fold (startAll_step env now) configs ([], s)"

text \<open>Two environments for the examples: every client connects, no client connects.\<close>

definition always_connects :: "nat \<Rightarrow> client_behaviour" where
  "always_connects c = \<lparr>cb_connect = Connects None None, cb_listTools = Some 0\<rparr>"

definition never_connects :: "nat \<Rightarrow> client_behaviour" where
  "never_connects c = \<lparr>cb_connect = ConnectFails ''spawn ENOENT'', cb_listTools = None\<rparr>"

text \<open>Every entry's state carries the entry's key as its name.\<close>

definition names_consistent :: "ServerManager \<Rightarrow> bool" where
  "names_consistent s = list_all (\<lambda>(k, m). st_name (ms_state m) = k) (sm_servers s)"

text \<open>Client \<open>c\<close> has been constructed and is held by no entry other than the one named \<open>n\<close>.\<close>

definition held_only_by :: "nat \<Rightarrow> string \<Rightarrow> ServerManager \<Rightarrow> bool" where
  "held_only_by c n s =
     (c < sm_clients_made s \<and> list_all (\<lambda>(k, m). ms_client m = c \<longrightarrow> k = n) (sm_servers s))"

section \<open>Properties of the audit log\<close>

lemma slice_from_zero: "slice_from 0 xs = xs"
  by (simp add: slice_from_def)

lemma slice_from_neg_length:
  "0 < n \<Longrightarrow> length (slice_from (- n) xs) = min (nat n) (length xs)"
  by (auto simp: slice_from_def Let_def)

lemma audit_record_bounded:
  "0 < maxEntries l \<Longrightarrow> count l \<le> nat (maxEntries l)
     \<Longrightarrow> count (audit_record e l) \<le> nat (maxEntries l)"
  by (auto simp: audit_record_def count_def Let_def slice_from_neg_length)

lemma audit_record_entries_pos:
  "0 < maxEntries l \<Longrightarrow>
     entries (audit_record e l) =
       (if length (entries l) < nat (maxEntries l) then entries l @ [e]
        else drop (Suc (length (entries l)) - nat (maxEntries l)) (entries l @ [e]))"
  by (auto simp: audit_record_def Let_def slice_from_def max_def nat_diff_distrib nat_add_distrib
           simp del: drop_append)

text \<open>
  For a positive capacity the log behaves as a bounded queue: after any sequence of
  \<open>record\<close> calls on a fresh log it holds the last \<open>N\<close> records, oldest first.
\<close>

lemma audit_fold_entries:
  "0 < N \<Longrightarrow>
     entries (fold audit_record es (new_AuditLog N)) = drop (length es - nat N) es
     \<and> maxEntries (fold audit_record es (new_AuditLog N)) = N"
proof (induction es rule: rev_induct)
  case Nil
  then show ?case by (simp add: new_AuditLog_def)
next
  case (snoc e es)
  let ?l = "fold audit_record es (new_AuditLog N)"
  from snoc have ih: "entries ?l = drop (length es - nat N) es" and mx: "maxEntries ?l = N"
    by simp_all
  have mx': "maxEntries (audit_record e ?l) = N"
    using mx by (simp add: audit_record_def Let_def)
  have "entries (audit_record e ?l) = drop (length (es @ [e]) - nat N) (es @ [e])"
  proof (cases "length es < nat N")
    case True
    then show ?thesis
      using snoc.prems mx ih by (simp add: audit_record_entries_pos)
  next
    case False
    then have len: "length (entries ?l) = nat N"
      using ih snoc.prems by simp
    have "entries (audit_record e ?l) = drop (Suc (nat N) - nat N) (entries ?l @ [e])"
      using snoc.prems mx len by (simp add: audit_record_entries_pos del: drop_append)
    also have "\<dots> = drop 1 (drop (length es - nat N) es @ [e])"
      using ih by simp
    also have "\<dots> = drop (length (es @ [e]) - nat N) (es @ [e])"
      using False snoc.prems by (simp add: Suc_diff_le drop_Suc tl_drop)
    finally show ?thesis .
  qed
  with mx' show ?case by simp
qed

text \<open>
  C6. The claim: for every capacity \<open>N\<close> the count never exceeds \<open>N\<close>, and after
  \<open>k \<ge> N\<close> records the count is \<open>N\<close>. The code cuts the list back with
  \<open>slice(-maxEntries)\<close>, and for \<open>maxEntries = 0\<close> that is \<open>slice(0)\<close>, which keeps
  everything: a log of capacity \<open>0\<close> grows without bound, and \<open>recent(0)\<close> returns all
  of it.
\<close>

theorem audit_record_capacity_zero_unbounded:
  "entries (fold audit_record es (new_AuditLog 0)) = es
   \<and> count (fold audit_record es (new_AuditLog 0)) = length es
   \<and> count (audit_record e2 (audit_record e1 (new_AuditLog 0))) = 2
   \<and> recent 0 (audit_record e2 (audit_record e1 (new_AuditLog 0))) = [e1, e2]"
proof -
  have "entries (fold audit_record es (new_AuditLog 0)) = es
        \<and> maxEntries (fold audit_record es (new_AuditLog 0)) = 0"
    by (induction es rule: rev_induct)
       (simp_all add: new_AuditLog_def audit_record_def Let_def slice_from_def)
  then show ?thesis
    by (simp add: count_def recent_def audit_record_def new_AuditLog_def slice_from_def)
qed

text \<open>
  C7. The claim: \<open>recent(c)\<close> returns the last \<open>min(c, size)\<close> entries, so \<open>recent(0)\<close>
  returns none. The code is \<open>entries.slice(-count)\<close>, and \<open>slice(-0)\<close> is the whole
  array: \<open>recent(0)\<close> returns every entry of the log.
\<close>

theorem recent_zero_returns_all:
  "recent 0 l = entries l
   \<and> recent 0 \<lparr>entries = [e1, e2, e3], maxEntries = 100\<rparr> = [e1, e2, e3]"
  by (simp add: recent_def slice_from_def)

text \<open>For a positive count \<open>recent\<close> does return the last \<open>min(c, size)\<close> entries.\<close>

lemma recent_positive:
  "0 < c \<Longrightarrow> recent c l = drop (length (entries l) - nat c) (entries l)"
  by (auto simp: recent_def slice_from_def Let_def max_def nat_diff_distrib)

text \<open>
  C1. The claim: a key whose lowercase form contains \<open>apikey\<close> is recorded as
  \<open>[REDACTED]\<close>. The code compares the lowercased key with the list entry \<open>apiKey\<close>,
  which has a capital letter and so is contained in no lowercased key: the keys
  \<open>apikey\<close> and \<open>apiKey\<close> are recorded with their values, next to a redacted
  \<open>password\<close>.
\<close>

theorem logInvocation_apikey_not_redacted:
  "map ae_arguments
     (entries (logInvocation now ''srv'' ''login''
        (Some [(''apikey'', JStr ''sk-123''), (''apiKey'', JStr ''sk-456''),
               (''password'', JStr ''hunter2'')])
        (Some Success) None (new_AuditLog 100)))
   = [Some [(''apikey'', JStr ''sk-123''), (''apiKey'', JStr ''sk-456''),
            (''password'', JStr ''[REDACTED]'')]]"
proof -
  have a: "is_sensitive ''apikey'' = False" by code_simp
  have b: "is_sensitive ''apiKey'' = False" by code_simp
  have c: "is_sensitive ''password'' = True" by code_simp
  have d: "object_entries [(''apikey'', JStr ''sk-123''), (''apiKey'', JStr ''sk-456''),
               (''password'', JStr ''hunter2'')]
           = [(''apikey'', JStr ''sk-123''), (''apiKey'', JStr ''sk-456''),
               (''password'', JStr ''hunter2'')]" by code_simp
  show ?thesis
    by (simp add: logInvocation_def audit_record_def new_AuditLog_def redactSensitive_def a b c d)
qed

section \<open>Properties of the permission guard\<close>

lemma glob_source_example: "glob_source ''read?*'' = ''^read?.*$''"
  by (simp add: glob_source_def star_to_dotstar_def escape_specials_def escaped_class_def backslash_def)

subsection \<open>Patterns without a question mark\<close>

lemma body_Cons:
  "star_to_dotstar (escape_specials (c # p))
     = (if c \<in> set escaped_class then [backslash, c] else if c = CHR ''*'' then ''.*'' else [c])
       @ star_to_dotstar (escape_specials p)"
  by (auto simp: star_to_dotstar_def escape_specials_def escaped_class_def backslash_def)

lemma glob_tokens_Cons:
  "glob_tokens (c # p)
     = (if c = CHR ''*'' then [TAtom AnyChar, TStar] else [TAtom (Lit c)]) @ glob_tokens p"
  by (simp add: glob_tokens_def)

lemma regex_lex_body:
  "CHR ''?'' \<notin> set p \<Longrightarrow> regex_lex rest = Inr ts \<Longrightarrow>
     regex_lex (star_to_dotstar (escape_specials p) @ rest) = Inr (glob_tokens p @ ts)"
proof (induction p)
  case Nil
  then show ?case
    by (simp add: star_to_dotstar_def escape_specials_def glob_tokens_def)
next
  case (Cons c p)
  from Cons.prems have q: "c \<noteq> CHR ''?''" and q': "CHR ''?'' \<notin> set p"
    by auto
  note ih = Cons.IH [OF q' Cons.prems(2)]
  consider (esc) "c \<in> set escaped_class" | (star) "c = CHR ''*''"
    | (plain) "c \<notin> set escaped_class" "c \<noteq> CHR ''*''"
    by blast
  then show ?case
  proof cases
    case esc
    then have ns: "c \<noteq> CHR ''*''"
      by (auto simp: escaped_class_def backslash_def)
    show ?thesis
      using esc ns by (simp add: body_Cons glob_tokens_Cons ih)
  next
    case star
    then have ne: "c \<notin> set escaped_class"
      by (simp add: escaped_class_def backslash_def)
    have d: "CHR ''.'' \<noteq> backslash" "CHR ''*'' \<noteq> backslash"
      by (simp_all add: backslash_def)
    show ?thesis
      using star ne d by (simp add: body_Cons glob_tokens_Cons ih)
  next
    case plain
    then have diff: "c \<noteq> backslash" "c \<noteq> CHR ''.''" "c \<noteq> CHR ''^''" "c \<noteq> CHR ''$''"
      "c \<notin> set ''+()[]{}|''"
      by (auto simp: escaped_class_def)
    show ?thesis
      using plain q diff by (simp add: body_Cons glob_tokens_Cons ih)
  qed
qed

lemma regex_group_tokens:
  "regex_group (glob_tokens p @ [TEnd]) = Inr (glob_terms p @ [AssertEnd])"
proof (induction p)
  case Nil
  show ?case by (simp add: glob_tokens_def glob_terms_def)
next
  case (Cons c p)
  have tok: "glob_tokens (c # p)
      = (if c = CHR ''*'' then [TAtom AnyChar, TStar] else [TAtom (Lit c)]) @ glob_tokens p"
    and trm: "glob_terms (c # p)
      = (if c = CHR ''*'' then Star AnyChar else One (Lit c)) # glob_terms p"
    by (simp_all add: glob_tokens_def glob_terms_def)
  have "\<exists>t ts. glob_tokens p @ [TEnd] = t # ts \<and> (t = TEnd \<or> (\<exists>a. t = TAtom a))"
    by (cases p) (auto simp: glob_tokens_def)
  then obtain t ts where nxt: "glob_tokens p @ [TEnd] = t # ts"
    and shape: "t = TEnd \<or> (\<exists>a. t = TAtom a)"
    by blast
  from shape show ?case
  proof
    assume "t = TEnd"
    with nxt Cons show ?thesis by (auto simp: tok trm)
  next
    assume "\<exists>a. t = TAtom a"
    then obtain a where "t = TAtom a" by blast
    with nxt Cons show ?thesis by (auto simp: tok trm)
  qed
qed

lemma regex_match_glob_terms:
  "\<forall>c \<in> set v. \<not> line_terminator c \<Longrightarrow>
     regex_match_here (glob_terms p @ [AssertEnd]) b v = glob_semantics p v"
proof (induction p v arbitrary: b rule: glob_semantics.induct)
  case (1 v)
  show ?case by (simp add: glob_terms_def)
next
  case (2 c p v)
  have trm: "glob_terms (x # p) = (if x = CHR ''*'' then Star AnyChar else One (Lit x)) # glob_terms p" for x
    by (simp add: glob_terms_def)
  show ?case
  proof (cases "c = CHR ''*''")
    case True
    show ?thesis
    proof (cases v)
      case Nil
      with True 2 show ?thesis by (simp add: trm)
    next
      case (Cons x xs)
      with 2(4) have ok: "\<not> line_terminator x" "\<forall>c \<in> set xs. \<not> line_terminator c"
        by simp_all
      from 2(1) [OF True 2(4)] have a: "regex_match_here (glob_terms p @ [AssertEnd]) b v = glob_semantics p v" .
      from 2(2) [OF True Cons ok(2)]
      have r: "regex_match_here (glob_terms (c # p) @ [AssertEnd]) False xs = glob_semantics (c # p) xs" .
      show ?thesis
        using True Cons ok(1) a r
        by (simp add: trm line_terminator_def)
    qed
  next
    case False
    show ?thesis
    proof (cases v)
      case Nil
      with False show ?thesis by (simp add: trm)
    next
      case (Cons x xs)
      with 2(4) have ok: "\<forall>c \<in> set xs. \<not> line_terminator c"
        by simp
      from 2(3) [OF False Cons ok]
      have "regex_match_here (glob_terms p @ [AssertEnd]) False xs = glob_semantics p xs" .
      with False Cons show ?thesis by (auto simp: trm)
    qed
  qed
qed

lemma regex_search_anchored:
  "regex_search (AssertStart # ts) False v = False"
  by (induction v) simp_all

lemma regex_test_anchored:
  "regex_test (AssertStart # ts) v = regex_match_here ts True v"
  by (cases v) (simp_all add: regex_test_def regex_search_anchored)

text \<open>
  For a pattern without \<open>?\<close> and a tool name without line terminators, \<open>matchGlob\<close>
  never throws and decides exactly the glob semantics of the specification.
\<close>

lemma matchGlob_glob_semantics:
  assumes "CHR ''?'' \<notin> set pattern" and "\<forall>c \<in> set v. \<not> line_terminator c"
  shows "matchGlob pattern v = Inr (glob_semantics pattern v)"
proof -
  have "regex_lex ''$'' = Inr [TEnd]"
    by (simp add: backslash_def)
  then have "regex_lex (star_to_dotstar (escape_specials pattern) @ ''$'')
          = Inr (glob_tokens pattern @ [TEnd])"
    by (rule regex_lex_body [OF assms(1)])
  then have lex: "regex_lex (glob_source pattern) = Inr (TStart # glob_tokens pattern @ [TEnd])"
    by (simp add: glob_source_def backslash_def)
  have "RegExp_compile (glob_source pattern) = Inr (AssertStart # glob_terms pattern @ [AssertEnd])"
    by (simp add: RegExp_compile_def lex regex_group_tokens)
  then show ?thesis
    by (simp add: matchGlob_def regex_test_anchored regex_match_glob_terms [OF assms(2)])
qed

text \<open>
  C2. The claim: every regular-expression metacharacter of a pattern other than \<open>*\<close> is
  escaped, so a \<open>?\<close> in a pattern matches only a literal \<open>?\<close>. The character class
  that \<open>matchGlob\<close> escapes leaves \<open>?\<close> out, so it reaches the regular expression as a
  quantifier: the rule \<open>read?*\<close> becomes \<open>^read?.*$\<close> and permits the tool \<open>reaper\<close>,
  the pattern \<open>a?b*\<close> does not match the name \<open>a?bc\<close>, and the pattern \<open>?*\<close> makes
  the check throw a \<open>SyntaxError\<close>.
\<close>

theorem checkToolPermission_question_mark_is_quantifier:
  "checkToolPermission [\<lparr>tp_tool = ''read?*'', tp_allow = True, tp_scopes = None\<rparr>] ''reaper'' None
     = Inr \<lparr>allowed = True, reason = None\<rparr>
   \<and> glob_semantics ''read?*'' ''reaper'' = False
   \<and> matchGlob ''a?b*'' ''a?bc'' = Inr False
   \<and> glob_semantics ''a?b*'' ''a?bc'' = True
   \<and> checkToolPermission [\<lparr>tp_tool = ''?*'', tp_allow = True, tp_scopes = None\<rparr>] ''?x'' None
     = Inl SyntaxError"
proof -
  have a: "matchGlob ''read?*'' ''reaper'' = Inr True" by code_simp
  have b: "glob_semantics ''read?*'' ''reaper'' = False" by code_simp
  have c: "matchGlob ''a?b*'' ''a?bc'' = Inr False" by code_simp
  have d: "glob_semantics ''a?b*'' ''a?bc'' = True" by code_simp
  have e: "matchGlob ''?*'' ''?x'' = Inl SyntaxError" by code_simp
  have f: "checkToolPermission [\<lparr>tp_tool = ''read?*'', tp_allow = True, tp_scopes = None\<rparr>]
             ''reaper'' None = Inr \<lparr>allowed = True, reason = None\<rparr>"
    by (simp add: checkToolPermission_def findMatchingRule_def a)
  have g: "checkToolPermission [\<lparr>tp_tool = ''?*'', tp_allow = True, tp_scopes = None\<rparr>]
             ''?x'' None = Inl SyntaxError"
    by (simp add: checkToolPermission_def findMatchingRule_def e)
  from b c d f g show ?thesis by simp
qed

section \<open>Properties of the manifest\<close>






lemma findTool_unqualified:
  "indexOf q CHR ''.'' = None \<Longrightarrow> findTool m q = Inr (scan_servers (object_entries (servers m)) q)"
  by (simp add: findTool_def)





text \<open>
  The claim as stated, for every manifest state, fails in two ways.

  With server names that are array indices the scan is not in insertion order: with \<open>2\<close>
  added before \<open>1\<close> and both caching a tool \<open>echo\<close>, the lookup of \<open>echo\<close> answers server
  \<open>1\<close>, not the first one inserted.

  A server added under the name \<open>__proto__\<close> becomes the prototype of \<open>servers\<close> and no
  property of it. Once its tools are cached (\<open>updateTools\<close> reads \<open>servers['__proto__']\<close>,
  finds the entry and stores the tools in it), the qualified lookup \<open>__proto__.echo\<close>
  returns its tool \<open>echo\<close>, while the unqualified lookup of \<open>echo\<close>, which scans
  \<open>Object.entries\<close>, returns \<open>undefined\<close> although a cached tool has that name: whether the
  server counts as known or not, one of the two answers is not the claim's.
\<close>

lemma addServer_proto:
  "addServer (stdio_config ''__proto__'' ''a'') new_manifest
     = \<lparr>version = ''1.0'', servers = [],
        servers_proto = Some \<lparr>me_config = stdio_config ''__proto__'' ''a'', me_capabilities = None,
                               me_tools = None, me_resources = None, me_prompts = None,
                               me_lastDiscovered = None\<rparr>\<rparr>"
  by (simp add: addServer_def new_manifest_def MANIFEST_VERSION_def stdio_config_def Let_def)

lemma addServer_plain:
  "addServer (stdio_config ''srv1'' ''a'') new_manifest
     = \<lparr>version = ''1.0'',
        servers = [(''srv1'', \<lparr>me_config = stdio_config ''srv1'' ''a'', me_capabilities = None,
                               me_tools = None, me_resources = None, me_prompts = None,
                               me_lastDiscovered = None\<rparr>)],
        servers_proto = None\<rparr>"
  by (simp add: addServer_def new_manifest_def MANIFEST_VERSION_def stdio_config_def Let_def)


text \<open>
  C3. The claim: a file whose contents are valid JSON but not a manifest object loads as
  the fresh empty manifest, and no later operation throws. The code stores the parsed
  value unchecked: a file holding \<open>null\<close> loads as \<open>null\<close>, on which reading
  \<open>this.manifest.servers\<close> is a \<open>TypeError\<close>, and a file holding \<open>{}\<close> loads as an
  object with no \<open>servers\<close>.
\<close>

theorem load_unchecked_json:
  "load sample_JSON_parse (Contents ''null'') new_ManifestManager = (JNull, \<lparr>manifest = JNull\<rparr>)
   \<and> JNull \<noteq> empty_manifest
   \<and> read_servers JNull = Inl TypeError
   \<and> load sample_JSON_parse (Contents ''{}'') new_ManifestManager = (JObj [], \<lparr>manifest = JObj []\<rparr>)
   \<and> read_servers (JObj []) = Inr None"
  by (simp add: load_def sample_JSON_parse_def new_ManifestManager_def empty_manifest_def)

text \<open>
  What \<open>load\<close> does in every case: the stored manifest is kept when there is no file
  (the fresh one, on a fresh manager), replaced by the fresh one when reading or parsing
  throws, and replaced by the parsed value otherwise.
\<close>

lemma load_cases:
  "load p NoFile new_ManifestManager = (empty_manifest, new_ManifestManager)"
  "load p ReadThrows mgr = (empty_manifest, \<lparr>manifest = empty_manifest\<rparr>)"
  "p raw = None \<Longrightarrow> load p (Contents raw) mgr = (empty_manifest, \<lparr>manifest = empty_manifest\<rparr>)"
  "p raw = Some v \<Longrightarrow> load p (Contents raw) mgr = (v, \<lparr>manifest = v\<rparr>)"
  by (simp_all add: load_def new_ManifestManager_def)

section \<open>Properties of the transport\<close>

lemma split_newline_nonempty: "split_newline s \<noteq> []"
  by (induction s) (auto split: list.splits)

lemma split_newline_no_newline: "newline \<notin> set b \<Longrightarrow> split_newline b = [b]"
  by (induction b) auto

lemma last_split_no_newline: "newline \<notin> set (last (split_newline s))"
proof (induction s)
  case Nil
  then show ?case by simp
next
  case (Cons c cs)
  then show ?case
    using split_newline_nonempty [of cs]
    by (cases "split_newline cs") (auto split: list.splits)
qed

lemma split_newline_append:
  "split_newline (a @ b) = butlast (split_newline a) @ split_newline (last (split_newline a) @ b)"
proof (induction a)
  case Nil
  then show ?case by simp
next
  case (Cons c cs)
  show ?case
  proof (cases "c = newline")
    case True
    then show ?thesis
      using Cons split_newline_nonempty [of cs] by simp
  next
    case False
    obtain l ls where s: "split_newline cs = l # ls"
      using split_newline_nonempty [of cs] by (cases "split_newline cs") auto
    obtain l' ls' where s': "split_newline (last (l # ls) @ b) = l' # ls'"
      using split_newline_nonempty by (cases "split_newline (last (l # ls) @ b)") auto
    show ?thesis
    proof (cases ls)
      case Nil
      with False s s' Cons show ?thesis by simp
    next
      case (Cons x xs)
      with False s s' Cons.IH show ?thesis by simp
    qed
  qed
qed

lemma butlast_split_append:
  "butlast (split_newline (a @ b))
     = butlast (split_newline a) @ butlast (split_newline (last (split_newline a) @ b))"
  by (simp add: split_newline_append [of a b] butlast_append split_newline_nonempty)

lemma last_split_append:
  "last (split_newline (a @ b)) = last (split_newline (last (split_newline a) @ b))"
  by (simp add: split_newline_append [of a b] split_newline_nonempty)

text \<open>When no line of the list makes an \<open>emit\<close> throw, the loop emits the events of every line.\<close>

lemma run_lines_all_return:
  "list_all (\<lambda>l. snd (line_events p L l)) ls
     \<Longrightarrow> run_lines p L ls = (concat (map (\<lambda>l. fst (line_events p L l)) ls), True)"
proof (induction ls)
  case Nil
  then show ?case by simp
next
  case (Cons l ls)
  obtain ev where e: "line_events p L l = (ev, True)"
    using Cons.prems by (cases "line_events p L l") auto
  from Cons have "run_lines p L ls = (concat (map (\<lambda>l. fst (line_events p L l)) ls), True)"
    by simp
  with e show ?case by simp
qed

lemma feed_accumulates:
  assumes "list_all (\<lambda>l. snd (line_events p L l))
             (butlast (split_newline (pre @ concat (map d chunks))))"
  shows "feed r d p L chunks (t\<lparr>buffer := last (split_newline pre)\<rparr>)
     = (t\<lparr>buffer := last (split_newline (pre @ concat (map d chunks)))\<rparr>,
        drop (length (concat (map (\<lambda>l. fst (line_events p L l)) (butlast (split_newline pre)))))
          (concat (map (\<lambda>l. fst (line_events p L l))
             (butlast (split_newline (pre @ concat (map d chunks)))))),
        True)"
  using assms
proof (induction chunks arbitrary: pre)
  case Nil
  then show ?case by simp
next
  case (Cons c cs)
  let ?E = "\<lambda>ls. concat (map (\<lambda>l. fst (line_events p L l)) ls)"
  have e1: "butlast (split_newline ((pre @ d c) @ concat (map d cs)))
      = butlast (split_newline (pre @ d c))
        @ butlast (split_newline (last (split_newline (pre @ d c)) @ concat (map d cs)))"
    by (rule butlast_split_append)
  have e2: "butlast (split_newline (pre @ d c))
      = butlast (split_newline pre) @ butlast (split_newline (last (split_newline pre) @ d c))"
    by (rule butlast_split_append)
  from Cons.prems
  have all: "list_all (\<lambda>l. snd (line_events p L l))
               (butlast (split_newline ((pre @ d c) @ concat (map d cs))))"
    by simp
  from all have ok1: "list_all (\<lambda>l. snd (line_events p L l)) (butlast (split_newline (pre @ d c)))"
    unfolding e1 by simp
  from ok1 have ok2: "list_all (\<lambda>l. snd (line_events p L l))
                        (butlast (split_newline (last (split_newline pre) @ d c)))"
    unfolding e2 by simp
  have step: "on_stdout_data d p L c (t\<lparr>buffer := last (split_newline pre)\<rparr>)
      = (t\<lparr>buffer := last (split_newline (pre @ d c))\<rparr>,
         ?E (butlast (split_newline (last (split_newline pre) @ d c))), True)"
    by (simp add: on_stdout_data_def handleData_def Let_def split_newline_nonempty
          last_split_append [of pre "d c"] run_lines_all_return [OF ok2])
  have rest: "feed r d p L cs (t\<lparr>buffer := last (split_newline (pre @ d c))\<rparr>)
      = (t\<lparr>buffer := last (split_newline ((pre @ d c) @ concat (map d cs)))\<rparr>,
         drop (length (?E (butlast (split_newline (pre @ d c)))))
           (?E (butlast (split_newline ((pre @ d c) @ concat (map d cs))))),
         True)"
    by (rule Cons.IH [OF all])
  have ev: "?E (butlast (split_newline ((pre @ d c) @ concat (map d cs))))
      = ?E (butlast (split_newline pre))
        @ ?E (butlast (split_newline (last (split_newline pre) @ d c)))
        @ ?E (butlast (split_newline (last (split_newline (pre @ d c)) @ concat (map d cs))))"
    unfolding e1 e2 by simp
  have ev2: "?E (butlast (split_newline (pre @ d c)))
      = ?E (butlast (split_newline pre))
        @ ?E (butlast (split_newline (last (split_newline pre) @ d c)))"
    unfolding e2 by simp
  show ?case
    using step rest ev ev2 by simp
qed

lemma feed_from_empty_buffer:
  assumes "list_all (\<lambda>l. snd (line_events p L l)) (butlast (split_newline (concat (map d chunks))))"
  shows "feed r d p L chunks (t\<lparr>buffer := []\<rparr>)
     = (t\<lparr>buffer := last (split_newline (concat (map d chunks)))\<rparr>,
        concat (map (\<lambda>l. fst (line_events p L l)) (butlast (split_newline (concat (map d chunks))))),
        True)"
  using feed_accumulates [where pre = "[]" and p = p and L = L and d = d and chunks = chunks
      and t = t and r = r] assms
  by simp

lemma line_events_no_close: "CloseEvent code \<notin> set (fst (line_events p L l))"
  by (simp add: line_events_def Let_def split: option.splits)

lemma run_lines_no_close: "CloseEvent code \<notin> set (fst (run_lines p L ls))"
proof (induction ls)
  case Nil
  then show ?case by simp
next
  case (Cons l ls)
  obtain ev ok where e: "line_events p L l = (ev, ok)"
    by (cases "line_events p L l")
  obtain evs ok' where r: "run_lines p L ls = (evs, ok')"
    by (cases "run_lines p L ls")
  from line_events_no_close [of code p L l] e have "CloseEvent code \<notin> set ev" by simp
  moreover from Cons r have "CloseEvent code \<notin> set evs" by simp
  ultimately show ?case
    using e r by (cases ok) simp_all
qed

lemma handleData_no_close:
  "CloseEvent code \<notin> set (fst (snd (handleData p L s t)))
   \<and> isConnected (fst (handleData p L s t)) = isConnected t"
  by (simp add: handleData_def Let_def run_lines_no_close)

lemma feed_no_close:
  "CloseEvent code \<notin> set (fst (snd (feed r d p L chunks t)))
   \<and> isConnected (fst (feed r d p L chunks t)) = isConnected t"
proof (induction chunks arbitrary: t)
  case Nil
  then show ?case by simp
next
  case (Cons c cs)
  obtain t1 ev1 ok1 where h: "on_stdout_data d p L c t = (t1, ev1, ok1)"
    by (cases "on_stdout_data d p L c t")
  obtain t2 ev2 ok2 where f: "feed r d p L cs t1 = (t2, ev2, ok2)"
    by (cases "feed r d p L cs t1")
  from handleData_no_close [of code p L "d c" t] h
  have a: "CloseEvent code \<notin> set ev1" "isConnected t1 = isConnected t"
    by (simp_all add: on_stdout_data_def)
  from Cons.IH [of t1] f
  have b: "CloseEvent code \<notin> set ev2" "isConnected t2 = isConnected t1" by simp_all
  from a b h f show ?case by simp
qed

text \<open>
  C9, as amended. The chunks of bytes are decoded one by one and handed to \<open>handleData\<close>,
  starting from an empty buffer; the text received is the concatenation of the decoded
  chunks, and its complete lines are those followed by a newline. If no \<open>emit\<close> made for a
  complete line of the text throws (an \<open>error\<close> listener is registered, and no listener
  throws), every call returns and the events emitted depend only on the text received:
  two sequences of chunks that decode to the same text emit the same events and leave the
  same buffer. The events are those of the complete lines, in order, and the unfinished
  last line stays in the buffer. A complete line emits nothing when it is blank after
  trimming; when its trimmed text parses, a \<open>message\<close> event (followed by an \<open>error\<close> event
  if a \<open>message\<close> listener throws); otherwise an \<open>error\<close> event with the first 200 code
  units of the trimmed text. Whatever the listeners do, \<open>handleData\<close> emits no \<open>close\<close>
  event and does not change the connected flag.
\<close>

theorem handleData_chunking:
  "(concat (map d chunks1) = concat (map d chunks2)
      \<and> list_all (\<lambda>l. snd (line_events p L l)) (butlast (split_newline (concat (map d chunks1))))
      \<longrightarrow> feed r d p L chunks1 (t\<lparr>buffer := []\<rparr>) = feed r d p L chunks2 (t\<lparr>buffer := []\<rparr>))
   \<and> (list_all (\<lambda>l. snd (line_events p L l)) (butlast (split_newline (concat (map d chunks))))
      \<longrightarrow> feed r d p L chunks (t\<lparr>buffer := []\<rparr>)
            = (t\<lparr>buffer := last (split_newline (concat (map d chunks)))\<rparr>,
               concat (map (\<lambda>l. fst (line_events p L l))
                 (butlast (split_newline (concat (map d chunks))))),
               True))
   \<and> fst (line_events p L l)
       = (if trim l = [] then []
          else case p (trim l) of
                 Some parsed \<Rightarrow>
                   MessageEvent parsed
                   # (if message_returns L parsed then []
                      else [ErrorEvent (units ''Failed to parse JSON-RPC message: '' @ take 200 (trim l))])
               | None \<Rightarrow> [ErrorEvent (units ''Failed to parse JSON-RPC message: '' @ take 200 (trim l))])
   \<and> CloseEvent code \<notin> set (fst (snd (feed r d p L chunks t)))
   \<and> isConnected (fst (feed r d p L chunks t)) = isConnected t"
proof -
  have a: "feed r d p L chunks1 (t\<lparr>buffer := []\<rparr>) = feed r d p L chunks2 (t\<lparr>buffer := []\<rparr>)"
    if "concat (map d chunks1) = concat (map d chunks2)"
      and "list_all (\<lambda>l. snd (line_events p L l)) (butlast (split_newline (concat (map d chunks1))))"
    using that feed_from_empty_buffer [of p L d chunks1 r t] feed_from_empty_buffer [of p L d chunks2 r t]
    by simp
  have b: "fst (line_events p L l)
       = (if trim l = [] then []
          else case p (trim l) of
                 Some parsed \<Rightarrow>
                   MessageEvent parsed
                   # (if message_returns L parsed then []
                      else [ErrorEvent (units ''Failed to parse JSON-RPC message: '' @ take 200 (trim l))])
               | None \<Rightarrow> [ErrorEvent (units ''Failed to parse JSON-RPC message: '' @ take 200 (trim l))])"
    by (simp add: line_events_def Let_def split: option.splits)
  from a b feed_from_empty_buffer [of p L d chunks r t] feed_no_close [of code r d p L chunks t]
  show ?thesis
    by blast
qed

lemmas transport_eval =
  on_stdout_data_def handleData_def Let_def sample_toString_def units_def newline_def
  line_events_def trim_def is_whitespace_def sample_JSON_parse_units_def
  returning_listeners_def no_error_listener_def

theorem handleData_chunking_witness:
  "concat (map sample_toString
        [units ''nu'', units ''ll'' @ [newline] @ units ''oo'', units ''ps'' @ [newline] @ units ''{}'',
         [newline] @ units ''tr''])
     = concat (map sample_toString
        [units ''null'' @ [newline] @ units ''oops'' @ [newline] @ units ''{}'' @ [newline] @ units ''tr''])
   \<and> list_all (\<lambda>l. snd (line_events sample_JSON_parse_units returning_listeners l))
        (butlast (split_newline (concat (map sample_toString
           [units ''nu'', units ''ll'' @ [newline] @ units ''oo'', units ''ps'' @ [newline] @ units ''{}'',
            [newline] @ units ''tr'']))))
   \<and> feed False sample_toString sample_JSON_parse_units returning_listeners
        [units ''nu'', units ''ll'' @ [newline] @ units ''oo'', units ''ps'' @ [newline] @ units ''{}'',
         [newline] @ units ''tr'']
        \<lparr>buffer = [], isConnected = True\<rparr>
     = feed False sample_toString sample_JSON_parse_units returning_listeners
        [units ''null'' @ [newline] @ units ''oops'' @ [newline] @ units ''{}'' @ [newline] @ units ''tr'']
        \<lparr>buffer = [], isConnected = True\<rparr>
   \<and> feed False sample_toString sample_JSON_parse_units returning_listeners
        [units ''null'' @ [newline] @ units ''oops'' @ [newline] @ units ''{}'' @ [newline] @ units ''tr'']
        \<lparr>buffer = [], isConnected = True\<rparr>
     = (\<lparr>buffer = units ''tr'', isConnected = True\<rparr>,
        [MessageEvent JNull, ErrorEvent (units ''Failed to parse JSON-RPC message: oops''),
         MessageEvent (JObj [])],
        True)"
proof -
  let ?a = "[units ''nu'', units ''ll'' @ [newline] @ units ''oo'', units ''ps'' @ [newline] @ units ''{}'',
             [newline] @ units ''tr'']"
  let ?b = "[units ''null'' @ [newline] @ units ''oops'' @ [newline] @ units ''{}'' @ [newline] @ units ''tr'']"
  let ?t = "\<lparr>buffer = [], isConnected = True\<rparr>"
  let ?s = "units ''null'' @ [newline] @ units ''oops'' @ [newline] @ units ''{}'' @ [newline] @ units ''tr''"
  have ca: "concat (map sample_toString ?a) = ?s"
    by (simp add: sample_toString_def units_def newline_def)
  have cb: "concat (map sample_toString ?b) = ?s"
    by (simp add: sample_toString_def units_def newline_def)
  have c: "concat (map sample_toString ?a) = concat (map sample_toString ?b)"
    by (simp only: ca cb)
  have ok: "list_all (\<lambda>l. snd (line_events sample_JSON_parse_units returning_listeners l))
              (butlast (split_newline (concat (map sample_toString ?a))))"
    by (simp only: ca) (simp add: transport_eval)
  have t: "?t\<lparr>buffer := []\<rparr> = ?t" by simp
  from handleData_chunking [where ?chunks1.0 = ?a and ?chunks2.0 = ?b and d = sample_toString
      and p = sample_JSON_parse_units and L = returning_listeners and t = ?t and r = False] c ok
  have eq: "feed False sample_toString sample_JSON_parse_units returning_listeners ?a ?t
      = feed False sample_toString sample_JSON_parse_units returning_listeners ?b ?t"
    by (simp only: t)
  have val: "feed False sample_toString sample_JSON_parse_units returning_listeners ?b ?t
     = (\<lparr>buffer = units ''tr'', isConnected = True\<rparr>,
        [MessageEvent JNull, ErrorEvent (units ''Failed to parse JSON-RPC message: oops''),
         MessageEvent (JObj [])],
        True)"
    by (simp add: transport_eval)
  from c ok eq val show ?thesis
    by (intro conjI)
qed

text \<open>
  The claim as stated fails in three ways.

  It promises an event for every complete non-empty line. A line holding one space is
  complete and not empty, and does not parse; the code trims it, finds it blank and emits
  nothing.

  It promises the same events for every splitting of the byte stream. The stream
  \<open>{}\<close>, \<open>C2 A0\<close>, LF holds the line \<open>{}\<close> followed by a no-break space, which \<open>trim\<close>
  removes: delivered whole it gives a \<open>message\<close> event. Split between \<open>C2\<close> and \<open>A0\<close>, each
  chunk is decoded on its own, each half of the character becomes U+FFFD, and the line
  gives an \<open>error\<close> event and no message.

  It promises that a line that fails to parse gives an \<open>error\<close> event and that the
  following lines are still processed. With no \<open>error\<close> listener \<open>emit('error', \<dots>)\<close> throws
  out of \<open>handleData\<close>: for the chunk holding the lines \<open>oops\<close> and \<open>{}\<close> the call throws
  after the error, and the line \<open>{}\<close>, complete and well formed, never gives an event,
  whether the process goes on reading or not; delivered as two chunks to a process that
  goes on reading, the same bytes give the error and then the message.
\<close>

theorem handleData_events_counterexample:
  "butlast (split_newline (units '' '' @ [newline])) = [units '' '']
   \<and> sample_JSON_parse_units (units '' '') = None
   \<and> handleData sample_JSON_parse_units returning_listeners (units '' '' @ [newline])
        \<lparr>buffer = [], isConnected = True\<rparr>
     = (\<lparr>buffer = [], isConnected = True\<rparr>, [], True)
   \<and> [[0x7B, 0x7D, 0xC2] @ [0xA0, 0x0A]] = [[0x7B, 0x7D, 0xC2, 0xA0, 0x0A :: nat]]
   \<and> feed False sample_toString sample_JSON_parse_units returning_listeners
        [[0x7B, 0x7D, 0xC2, 0xA0, 0x0A]] \<lparr>buffer = [], isConnected = True\<rparr>
     = (\<lparr>buffer = [], isConnected = True\<rparr>, [MessageEvent (JObj [])], True)
   \<and> feed False sample_toString sample_JSON_parse_units returning_listeners
        [[0x7B, 0x7D, 0xC2], [0xA0, 0x0A]] \<lparr>buffer = [], isConnected = True\<rparr>
     = (\<lparr>buffer = [], isConnected = True\<rparr>,
        [ErrorEvent (units ''Failed to parse JSON-RPC message: {}'' @ [0xFFFD, 0xFFFD])], True)
   \<and> handleData sample_JSON_parse_units no_error_listener
        (units ''oops'' @ [newline] @ units ''{}'' @ [newline]) \<lparr>buffer = [], isConnected = True\<rparr>
     = (\<lparr>buffer = [], isConnected = True\<rparr>,
        [ErrorEvent (units ''Failed to parse JSON-RPC message: oops'')], False)
   \<and> feed False sample_toString sample_JSON_parse_units no_error_listener
        [units ''oops'' @ [newline] @ units ''{}'' @ [newline]] \<lparr>buffer = [], isConnected = True\<rparr>
     = (\<lparr>buffer = [], isConnected = True\<rparr>,
        [ErrorEvent (units ''Failed to parse JSON-RPC message: oops'')], False)
   \<and> feed True sample_toString sample_JSON_parse_units no_error_listener
        [units ''oops'' @ [newline] @ units ''{}'' @ [newline]] \<lparr>buffer = [], isConnected = True\<rparr>
     = (\<lparr>buffer = [], isConnected = True\<rparr>,
        [ErrorEvent (units ''Failed to parse JSON-RPC message: oops'')], False)
   \<and> feed True sample_toString sample_JSON_parse_units no_error_listener
        [units ''oops'' @ [newline], units ''{}'' @ [newline]] \<lparr>buffer = [], isConnected = True\<rparr>
     = (\<lparr>buffer = [], isConnected = True\<rparr>,
        [ErrorEvent (units ''Failed to parse JSON-RPC message: oops''), MessageEvent (JObj [])],
        False)"
proof -
  let ?t = "\<lparr>buffer = [], isConnected = True\<rparr>"
  have blank1: "butlast (split_newline (units '' '' @ [newline])) = [units '' '']"
    by (simp add: units_def newline_def)
  have blank2: "sample_JSON_parse_units (units '' '') = None"
    by (simp add: sample_JSON_parse_units_def units_def)
  have blank3: "handleData sample_JSON_parse_units returning_listeners (units '' '' @ [newline]) ?t
      = (?t, [], True)"
    by (simp add: transport_eval)
  have bytes0: "[[0x7B, 0x7D, 0xC2] @ [0xA0, 0x0A]] = [[0x7B, 0x7D, 0xC2, 0xA0, 0x0A :: nat]]"
    by simp
  have whole: "feed False sample_toString sample_JSON_parse_units returning_listeners
        [[0x7B, 0x7D, 0xC2, 0xA0, 0x0A]] ?t
      = (?t, [MessageEvent (JObj [])], True)"
    by (simp add: transport_eval)
  have split: "feed False sample_toString sample_JSON_parse_units returning_listeners
        [[0x7B, 0x7D, 0xC2], [0xA0, 0x0A]] ?t
      = (?t, [ErrorEvent (units ''Failed to parse JSON-RPC message: {}'' @ [0xFFFD, 0xFFFD])], True)"
    by (simp add: transport_eval)
  have throw1: "handleData sample_JSON_parse_units no_error_listener
        (units ''oops'' @ [newline] @ units ''{}'' @ [newline]) ?t
      = (?t, [ErrorEvent (units ''Failed to parse JSON-RPC message: oops'')], False)"
    by (simp add: transport_eval)
  have throw2: "feed False sample_toString sample_JSON_parse_units no_error_listener
        [units ''oops'' @ [newline] @ units ''{}'' @ [newline]] ?t
      = (?t, [ErrorEvent (units ''Failed to parse JSON-RPC message: oops'')], False)"
    by (simp add: transport_eval)
  have throw3: "feed True sample_toString sample_JSON_parse_units no_error_listener
        [units ''oops'' @ [newline] @ units ''{}'' @ [newline]] ?t
      = (?t, [ErrorEvent (units ''Failed to parse JSON-RPC message: oops'')], False)"
    by (simp add: transport_eval)
  have throw4: "feed True sample_toString sample_JSON_parse_units no_error_listener
        [units ''oops'' @ [newline], units ''{}'' @ [newline]] ?t
      = (?t, [ErrorEvent (units ''Failed to parse JSON-RPC message: oops''), MessageEvent (JObj [])],
         False)"
    by (simp add: transport_eval)
  from blank1 blank2 blank3 bytes0 whole split throw1 throw2 throw3 throw4 show ?thesis
    by (intro conjI)
qed

section \<open>Properties of the protocol engine\<close>

lemma obj_get_None_iff: "obj_get ps k = None \<longleftrightarrow> k \<notin> fst ` set ps"
  by (induction ps) (auto simp: image_iff split: if_splits)

lemma obj_get_obj_set: "obj_get (obj_set k v ps) k' = (if k' = k then Some v else obj_get ps k')"
  by (induction ps) auto

lemma obj_get_obj_delete: "obj_get (obj_delete k ps) k' = (if k' = k then None else obj_get ps k')"
  by (induction ps) (auto simp: obj_delete_def)

lemma calls_for_settle:
  "calls_for i (settle k outcome s)
     = calls_for i s @ (if k = i then [\<lparr>call_id = k, call_outcome = outcome,
                                         call_entry_present = (obj_get (pending s) k \<noteq> None)\<rparr>] else [])"
  by (simp add: calls_for_def settle_def)

lemma calls_for_frame [simp]:
  "calls_for i (clearTimeout k s) = calls_for i s"
  "calls_for i (pending_delete k s) = calls_for i s"
  by (simp_all add: calls_for_def clearTimeout_def pending_delete_def)

lemma reject_one_fields [simp]:
  "nextId (reject_one err k s) = nextId s"
  "timeout (reject_one err k s) = timeout s"
  "in_flight (reject_one err k s) = in_flight s"
  "timers (reject_one err k s) = obj_delete k (timers s)"
  "pending (reject_one err k s) = obj_delete k (pending s)"
  "calls (reject_one err k s)
     = calls s @ [\<lparr>call_id = k, call_outcome = Reject err,
                    call_entry_present = (obj_get (pending s) k \<noteq> None)\<rparr>]"
  by (simp_all add: reject_one_def pending_delete_def settle_def clearTimeout_def)

lemma engine_inv_reject_one:
  "engine_inv s \<Longrightarrow> k < nextId s \<Longrightarrow> engine_inv (reject_one err k s)"
  by (auto simp: engine_inv_def obj_get_obj_delete calls_for_def split: if_splits)

lemma fold_reject_one_nextId [simp]: "nextId (fold (reject_one err) ks s) = nextId s"
  by (induction ks arbitrary: s) auto

lemma fold_reject_one_timeout [simp]: "timeout (fold (reject_one err) ks s) = timeout s"
  by (induction ks arbitrary: s) auto

lemma engine_inv_fold_reject_one:
  "engine_inv s \<Longrightarrow> \<forall>k \<in> set ks. k < nextId s \<Longrightarrow> engine_inv (fold (reject_one err) ks s)"
  by (induction ks arbitrary: s) (auto simp: engine_inv_reject_one)

lemma engine_inv_initialized: "engine_inv (s\<lparr>initialized := b\<rparr>) = engine_inv s"
  by (simp add: engine_inv_def calls_for_def)

lemma engine_inv_emitted: "engine_inv (s\<lparr>emitted := b\<rparr>) = engine_inv s"
  by (simp add: engine_inv_def calls_for_def)

lemma pending_keys_bounded:
  "engine_inv s \<Longrightarrow> k \<in> set (map fst (pending s)) \<Longrightarrow> k < nextId s"
  using obj_get_None_iff [of "pending s" k] by (auto simp: engine_inv_def)

lemma engine_inv_reject_all: "engine_inv s \<Longrightarrow> engine_inv (reject_all err s)"
proof -
  assume inv: "engine_inv s"
  have "\<forall>k \<in> set (map fst (pending s)). k < nextId s"
    using pending_keys_bounded [OF inv] by blast
  with inv show ?thesis
    unfolding reject_all_def by (rule engine_inv_fold_reject_one)
qed

lemma engine_inv_new: "engine_inv (new_MCPProtocol t)"
  by (simp add: engine_inv_def new_MCPProtocol_def calls_for_def)

lemma engine_inv_request: "engine_inv s \<Longrightarrow> engine_inv (snd (request m s))"
  by (fastforce simp: engine_inv_def request_def Let_def obj_get_obj_set calls_for_def
        filter_empty_conv split: if_splits)

lemma engine_inv_on_timeout:
  "engine_inv s \<Longrightarrow> obj_get (timers s) i = Some m \<Longrightarrow> engine_inv (on_timeout i m s)"
  by (auto simp: engine_inv_def on_timeout_def settle_def pending_delete_def clearTimeout_def
        obj_get_obj_delete calls_for_def split: if_splits)

lemma engine_inv_on_send_failed:
  "engine_inv s \<Longrightarrow> i \<in> set (in_flight s)
     \<Longrightarrow> engine_inv (on_send_failed i err (s\<lparr>in_flight := removeAll i (in_flight s)\<rparr>))"
  by (auto simp: engine_inv_def on_send_failed_def settle_def pending_delete_def clearTimeout_def
        obj_get_obj_delete calls_for_def split: if_splits)

lemma engine_inv_handleMessage: "engine_inv s \<Longrightarrow> engine_inv (handleMessage msg s)"
proof -
  assume inv: "engine_inv s"
  show ?thesis
  proof (cases "msg_id msg")
    case (IdNum i)
    show ?thesis
    proof (cases "obj_get (pending s) i")
      case None
      with IdNum inv show ?thesis by (simp add: handleMessage_def)
    next
      case (Some p)
      with inv have "i < nextId s" by (auto simp: engine_inv_def)
      with inv IdNum Some show ?thesis
        by (auto simp: engine_inv_def handleMessage_def Let_def settle_def pending_delete_def
              clearTimeout_def obj_get_obj_delete calls_for_def split: option.splits if_splits)
    qed
  next
    case IdAbsent
    with inv show ?thesis
      by (auto simp: handleMessage_def engine_inv_emitted split: option.splits)
  qed (use inv in \<open>simp_all add: handleMessage_def\<close>)
qed

lemma engine_inv_step: "engine_inv s \<Longrightarrow> step e s = Some s' \<Longrightarrow> engine_inv s'"
proof (cases e)
  case (CallRequest m)
  assume "engine_inv s" "step e s = Some s'"
  with CallRequest show ?thesis using engine_inv_request [of s m] by auto
next
  case (TimerFires i)
  assume "engine_inv s" "step e s = Some s'"
  with TimerFires show ?thesis
    by (auto simp: engine_inv_on_timeout split: option.splits)
next
  case (MessageArrives msg)
  assume "engine_inv s" "step e s = Some s'"
  with MessageArrives show ?thesis by (auto simp: engine_inv_handleMessage)
next
  case (SendCompletes i)
  assume "engine_inv s" "step e s = Some s'"
  with SendCompletes show ?thesis
    by (auto simp: engine_inv_def calls_for_def split: if_splits)
next
  case (SendFails i err)
  assume "engine_inv s" "step e s = Some s'"
  with SendFails show ?thesis
    by (auto simp: engine_inv_on_send_failed split: if_splits)
next
  case (TransportCloses code)
  assume "engine_inv s" "step e s = Some s'"
  with TransportCloses show ?thesis
    by (auto simp: handleClose_def Let_def engine_inv_emitted engine_inv_reject_all
          engine_inv_initialized)
next
  case ShutdownSweeps
  assume "engine_inv s" "step e s = Some s'"
  with ShutdownSweeps show ?thesis
    by (auto simp: shutdown_sweep_def engine_inv_reject_all engine_inv_initialized)
qed

lemma engine_inv_run: "engine_inv s \<Longrightarrow> run es s = Some s' \<Longrightarrow> engine_inv s'"
proof (induction es arbitrary: s)
  case Nil
  then show ?case by simp
next
  case (Cons e es)
  then show ?case
    by (auto split: option.splits dest: engine_inv_step)
qed

subsection \<open>What a turn of the loop leaves alone\<close>

lemma fold_reject_one_timers:
  "obj_get (timers (fold (reject_one err) ks s)) i
     = (if i \<in> set ks then None else obj_get (timers s) i)"
  by (induction ks arbitrary: s) (auto simp: obj_get_obj_delete)

lemma fold_reject_one_pending:
  "obj_get (pending (fold (reject_one err) ks s)) i
     = (if i \<in> set ks then None else obj_get (pending s) i)"
  by (induction ks arbitrary: s) (auto simp: obj_get_obj_delete)

lemma fold_reject_one_calls_for:
  "i \<notin> set ks \<Longrightarrow> calls_for i (fold (reject_one err) ks s) = calls_for i s"
  by (induction ks arbitrary: s) (auto simp: calls_for_def)

lemma fold_reject_one_calls_grow:
  "\<exists>ext. calls (fold (reject_one err) ks s) = calls s @ ext"
proof (induction ks arbitrary: s)
  case Nil
  then show ?case by simp
next
  case (Cons k ks)
  from Cons [of "reject_one err k s"] show ?case by auto
qed

lemma step_counters:
  "step e s = Some s' \<Longrightarrow> nextId s \<le> nextId s' \<and> timeout s' = timeout s"
  by (cases e)
     (auto simp: request_def Let_def on_timeout_def on_send_failed_def settle_def
        pending_delete_def clearTimeout_def handleMessage_def handleClose_def
        shutdown_sweep_def reject_all_def
        split: option.splits if_splits id_field.splits)

lemma run_counters:
  "run es s = Some s' \<Longrightarrow> nextId s \<le> nextId s' \<and> timeout s' = timeout s"
proof (induction es arbitrary: s)
  case Nil
  then show ?case by simp
next
  case (Cons e es)
  then obtain s1 where a: "step e s = Some s1" and b: "run es s1 = Some s'"
    by (auto split: option.splits)
  from step_counters [OF a] Cons.IH [OF b] show ?case by simp
qed

lemma step_timer_kept:
  "i < nextId s \<Longrightarrow> step e s = Some s' \<Longrightarrow> obj_get (timers s') i = Some m
     \<Longrightarrow> obj_get (timers s) i = Some m"
  by (cases e)
     (auto simp: request_def Let_def on_timeout_def on_send_failed_def settle_def
        pending_delete_def clearTimeout_def handleMessage_def handleClose_def
        shutdown_sweep_def reject_all_def obj_get_obj_set obj_get_obj_delete
        fold_reject_one_timers
        split: option.splits if_splits id_field.splits)

lemma run_timer_kept:
  "i < nextId s \<Longrightarrow> run es s = Some s' \<Longrightarrow> obj_get (timers s') i = Some m
     \<Longrightarrow> obj_get (timers s) i = Some m"
proof (induction es arbitrary: s)
  case Nil
  then show ?case by simp
next
  case (Cons e es)
  then obtain s1 where a: "step e s = Some s1" and b: "run es s1 = Some s'"
    by (auto split: option.splits)
  from step_counters [OF a] Cons.prems(1) have "i < nextId s1" by simp
  from Cons.IH [OF this b Cons.prems(3)] have "obj_get (timers s1) i = Some m" .
  from step_timer_kept [OF Cons.prems(1) a this] show ?case .
qed

lemma step_calls_grow: "step e s = Some s' \<Longrightarrow> \<exists>ext. calls s' = calls s @ ext"
proof (cases e)
  case (TransportCloses code)
  assume "step e s = Some s'"
  with TransportCloses fold_reject_one_calls_grow
    [of "TransportClosed code" "map fst (pending s)" "s\<lparr>initialized := False\<rparr>"]
  show ?thesis by (auto simp: handleClose_def Let_def reject_all_def)
next
  case ShutdownSweeps
  assume "step e s = Some s'"
  with ShutdownSweeps fold_reject_one_calls_grow
    [of ShuttingDown "map fst (pending s)" "s\<lparr>initialized := False\<rparr>"]
  show ?thesis by (auto simp: shutdown_sweep_def reject_all_def)
qed (auto simp: request_def Let_def on_timeout_def on_send_failed_def settle_def
        pending_delete_def clearTimeout_def handleMessage_def
        split: option.splits if_splits id_field.splits)

lemma run_calls_grow: "run es s = Some s' \<Longrightarrow> \<exists>ext. calls s' = calls s @ ext"
proof (induction es arbitrary: s)
  case Nil
  then show ?case by simp
next
  case (Cons e es)
  then obtain s1 where a: "step e s = Some s1" and b: "run es s1 = Some s'"
    by (auto split: option.splits)
  from step_calls_grow [OF a] Cons.IH [OF b] show ?case by auto
qed

lemma find_append_None: "find P xs = None \<Longrightarrow> find P (xs @ ys) = find P ys"
  by (induction xs) (auto split: if_splits)

lemma find_append_Some: "find P xs = Some x \<Longrightarrow> find P (xs @ ys) = Some x"
  by (induction xs) (auto split: if_splits)

lemma outcome_of_kept:
  "run es s = Some s' \<Longrightarrow> outcome_of i s = Some r \<Longrightarrow> outcome_of i s' = Some r"
proof -
  assume r: "run es s = Some s'" and o: "outcome_of i s = Some r"
  from run_calls_grow [OF r] obtain ext where e: "calls s' = calls s @ ext" by blast
  from o obtain c where c: "find (\<lambda>c. call_id c = i) (calls s) = Some c" "call_outcome c = r"
    by (auto simp: outcome_of_def)
  from find_append_Some [OF c(1), of ext] e c(2) show ?thesis
    by (simp add: outcome_of_def)
qed

subsection \<open>An expired request\<close>

lemma expired_reject_all:
  "expired i s \<Longrightarrow> expired i (reject_all err s) \<and> calls_for i (reject_all err s) = calls_for i s"
proof -
  assume x: "expired i s"
  then have "i \<notin> set (map fst (pending s))"
    using obj_get_None_iff [of "pending s" i] by (simp add: expired_def)
  with x show ?thesis
    by (simp add: expired_def reject_all_def fold_reject_one_timers fold_reject_one_pending
          fold_reject_one_calls_for)
qed

lemma expired_flags:
  "expired i (s\<lparr>initialized := b\<rparr>) = expired i s"
  "expired i (s\<lparr>emitted := ev\<rparr>) = expired i s"
  "calls_for i (s\<lparr>initialized := b\<rparr>) = calls_for i s"
  "calls_for i (s\<lparr>emitted := ev\<rparr>) = calls_for i s"
  by (simp_all add: expired_def calls_for_def)

lemma expired_step:
  "expired i s \<Longrightarrow> step e s = Some s' \<Longrightarrow>
     expired i s' \<and> ((\<forall>err. e \<noteq> SendFails i err) \<longrightarrow> calls_for i s' = calls_for i s)"
proof (cases e)
  case (TransportCloses code)
  assume "expired i s" "step e s = Some s'"
  with TransportCloses expired_reject_all [of i "s\<lparr>initialized := False\<rparr>" "TransportClosed code"]
  show ?thesis by (auto simp: handleClose_def Let_def expired_flags)
next
  case ShutdownSweeps
  assume "expired i s" "step e s = Some s'"
  with ShutdownSweeps expired_reject_all [of i "s\<lparr>initialized := False\<rparr>" ShuttingDown]
  show ?thesis by (auto simp: shutdown_sweep_def expired_flags)
next
  case (MessageArrives msg)
  assume "expired i s" "step e s = Some s'"
  with MessageArrives show ?thesis
    by (auto simp: expired_def handleMessage_def Let_def settle_def pending_delete_def
          clearTimeout_def obj_get_obj_delete calls_for_def
          split: option.splits if_splits id_field.splits)
qed (auto simp: expired_def request_def Let_def on_timeout_def on_send_failed_def settle_def
        pending_delete_def clearTimeout_def obj_get_obj_set obj_get_obj_delete calls_for_def
        split: option.splits if_splits)

lemma expired_run:
  "expired i s \<Longrightarrow> run es s = Some s' \<Longrightarrow> \<forall>err. SendFails i err \<notin> set es
     \<Longrightarrow> expired i s' \<and> calls_for i s' = calls_for i s"
proof (induction es arbitrary: s)
  case Nil
  then show ?case by simp
next
  case (Cons e es)
  then obtain s1 where a: "step e s = Some s1" and b: "run es s1 = Some s'"
    by (auto split: option.splits)
  from Cons.prems(3) have ne: "\<forall>err. e \<noteq> SendFails i err" and rest: "\<forall>err. SendFails i err \<notin> set es"
    by auto
  from expired_step [OF Cons.prems(1) a] ne
  have x1: "expired i s1" and c1: "calls_for i s1 = calls_for i s" by simp_all
  from Cons.IH [OF x1 b rest] c1 show ?case by simp
qed

lemma expired_run_weak: "expired i s \<Longrightarrow> run es s = Some s' \<Longrightarrow> expired i s'"
proof (induction es arbitrary: s)
  case Nil
  then show ?case by simp
next
  case (Cons e es)
  then obtain s1 where a: "step e s = Some s1" and b: "run es s1 = Some s'"
    by (auto split: option.splits)
  from expired_step [OF Cons.prems(1) a] have "expired i s1" by simp
  from Cons.IH [OF this b] show ?case .
qed

lemma late_response_dropped:
  "expired i s \<Longrightarrow> handleMessage (response i res err) s = s"
  by (simp add: expired_def handleMessage_def response_def)

text \<open>
  C4. A request is issued in any state the engine can reach; later, after any further
  events, its timer fires; after that anything happens, a late response included.
  Then the timer's callback made exactly one call for the request, a rejection with the
  timeout error naming the method and the id, at a moment when the pending table no
  longer held the id; the promise stays rejected with that error whatever follows; a
  response for the id that arrives afterwards leaves the whole state unchanged
  (nothing is resolved, rejected or emitted); and no later event calls the request's
  \<open>resolve\<close> or \<open>reject\<close> again (a failure of its own \<open>send\<close> set aside, which cannot
  happen for a request that was answered).
\<close>

theorem late_response_after_timeout:
  assumes "run es0 (new_MCPProtocol T) = Some s0"
    and "request m s0 = (i, s1)"
    and "run es1 s1 = Some s2"
    and "step (TimerFires i) s2 = Some s3"
    and "run es2 s3 = Some s4"
  shows "calls_for i s3
           = [\<lparr>call_id = i, call_outcome = Reject (TimedOut m i T), call_entry_present = False\<rparr>]
         \<and> obj_get (pending s3) i = None
         \<and> outcome_of i s4 = Some (Reject (TimedOut m i T))
         \<and> step (MessageArrives (response i res err)) s4 = Some s4
         \<and> ((\<forall>e. SendFails i e \<notin> set es2) \<longrightarrow> calls_for i s4 = calls_for i s3)"
proof -
  have inv0: "engine_inv s0"
    using engine_inv_run [OF engine_inv_new assms(1)] .
  have T0: "timeout s0 = T"
    using run_counters [OF assms(1)] by (simp add: new_MCPProtocol_def)
  from assms(2) have i: "i = nextId s0" and s1: "s1 = snd (request m s0)"
    by (auto simp: request_def Let_def)
  have inv1: "engine_inv s1"
    using engine_inv_request [OF inv0] s1 by simp
  have t1: "obj_get (timers s1) i = Some m" and n1: "i < nextId s1" and T1: "timeout s1 = T"
    using i s1 T0 by (simp_all add: request_def Let_def obj_get_obj_set)
  have inv2: "engine_inv s2"
    using engine_inv_run [OF inv1 assms(3)] .
  have n2: "i < nextId s2" and T2: "timeout s2 = T"
    using run_counters [OF assms(3)] n1 T1 by simp_all
  from assms(4) obtain m' where t2: "obj_get (timers s2) i = Some m'"
    and s3: "s3 = on_timeout i m' s2"
    by (auto split: option.splits)
  from run_timer_kept [OF n1 assms(3) t2] t1 have m': "m' = m" by simp
  from inv2 t2 have c2: "calls_for i s2 = []"
    by (auto simp: engine_inv_def)
  have c3: "calls_for i s3
      = [\<lparr>call_id = i, call_outcome = Reject (TimedOut m i T), call_entry_present = False\<rparr>]"
    using c2 s3 m' T2
    by (simp add: on_timeout_def settle_def calls_for_def pending_delete_def clearTimeout_def
          obj_get_obj_delete)
  have p3: "obj_get (pending s3) i = None"
    using s3 by (simp add: on_timeout_def settle_def pending_delete_def clearTimeout_def
          obj_get_obj_delete)
  have x3: "expired i s3"
    using s3 n2 by (simp add: expired_def on_timeout_def settle_def pending_delete_def
          clearTimeout_def obj_get_obj_delete)
  have o3: "outcome_of i s3 = Some (Reject (TimedOut m i T))"
  proof -
    have "find (\<lambda>c. call_id c = i) (calls s2) = None"
      using c2 by (simp add: calls_for_def find_None_iff filter_empty_conv)
    then show ?thesis
      using s3 m' T2
      by (simp add: outcome_of_def on_timeout_def settle_def pending_delete_def clearTimeout_def
            find_append_None)
  qed
  have o4: "outcome_of i s4 = Some (Reject (TimedOut m i T))"
    using outcome_of_kept [OF assms(5) o3] .
  have x4: "expired i s4"
    using expired_run_weak [OF x3 assms(5)] .
  have late: "step (MessageArrives (response i res err)) s4 = Some s4"
    using late_response_dropped [OF x4] by simp
  have quiet: "(\<forall>e. SendFails i e \<notin> set es2) \<longrightarrow> calls_for i s4 = calls_for i s3"
    using expired_run [OF x3 assms(5)] by blast
  from c3 p3 o4 late quiet show ?thesis by blast
qed

theorem late_response_after_timeout_witness:
  "run [] (new_MCPProtocol 50) = Some (new_MCPProtocol 50)
   \<and> request ''slow/method'' (new_MCPProtocol 50)
       = (1, \<lparr>nextId = 2, pending = [(1, \<lparr>pr_method = ''slow/method''\<rparr>)],
              timers = [(1, ''slow/method'')], in_flight = [1], initialized = False,
              timeout = 50, calls = [], emitted = []\<rparr>)
   \<and> run [SendCompletes 1]
         \<lparr>nextId = 2, pending = [(1, \<lparr>pr_method = ''slow/method''\<rparr>)],
          timers = [(1, ''slow/method'')], in_flight = [1], initialized = False,
          timeout = 50, calls = [], emitted = []\<rparr>
       = Some \<lparr>nextId = 2, pending = [(1, \<lparr>pr_method = ''slow/method''\<rparr>)],
               timers = [(1, ''slow/method'')], in_flight = [], initialized = False,
               timeout = 50, calls = [], emitted = []\<rparr>
   \<and> step (TimerFires 1)
         \<lparr>nextId = 2, pending = [(1, \<lparr>pr_method = ''slow/method''\<rparr>)],
          timers = [(1, ''slow/method'')], in_flight = [], initialized = False,
          timeout = 50, calls = [], emitted = []\<rparr>
       = Some \<lparr>nextId = 2, pending = [], timers = [], in_flight = [], initialized = False,
               timeout = 50,
               calls = [\<lparr>call_id = 1, call_outcome = Reject (TimedOut ''slow/method'' 1 50),
                         call_entry_present = False\<rparr>],
               emitted = []\<rparr>
   \<and> run [MessageArrives (response 1 (Some (JStr ''late'')) None)]
         \<lparr>nextId = 2, pending = [], timers = [], in_flight = [], initialized = False,
          timeout = 50,
          calls = [\<lparr>call_id = 1, call_outcome = Reject (TimedOut ''slow/method'' 1 50),
                    call_entry_present = False\<rparr>],
          emitted = []\<rparr>
       = Some \<lparr>nextId = 2, pending = [], timers = [], in_flight = [], initialized = False,
               timeout = 50,
               calls = [\<lparr>call_id = 1, call_outcome = Reject (TimedOut ''slow/method'' 1 50),
                         call_entry_present = False\<rparr>],
               emitted = []\<rparr>
   \<and> outcome_of 1
         \<lparr>nextId = 2, pending = [], timers = [], in_flight = [], initialized = False,
          timeout = 50,
          calls = [\<lparr>call_id = 1, call_outcome = Reject (TimedOut ''slow/method'' 1 50),
                    call_entry_present = False\<rparr>],
          emitted = []\<rparr>
       = Some (Reject (TimedOut ''slow/method'' 1 50))"
proof -
  let ?s1 = "\<lparr>nextId = 2, pending = [(1, \<lparr>pr_method = ''slow/method''\<rparr>)],
              timers = [(1, ''slow/method'')], in_flight = [1], initialized = False,
              timeout = 50, calls = [], emitted = []\<rparr>"
  let ?s2 = "\<lparr>nextId = 2, pending = [(1, \<lparr>pr_method = ''slow/method''\<rparr>)],
               timers = [(1, ''slow/method'')], in_flight = [], initialized = False,
               timeout = 50, calls = [], emitted = []\<rparr>"
  let ?s3 = "\<lparr>nextId = 2, pending = [], timers = [], in_flight = [], initialized = False,
               timeout = 50,
               calls = [\<lparr>call_id = 1, call_outcome = Reject (TimedOut ''slow/method'' 1 50),
                         call_entry_present = False\<rparr>],
               emitted = []\<rparr>"
  have h1: "run [] (new_MCPProtocol 50) = Some (new_MCPProtocol 50)"
    by simp
  have h2: "request ''slow/method'' (new_MCPProtocol 50) = (1, ?s1)"
    by (simp add: request_def new_MCPProtocol_def)
  have h3: "run [SendCompletes 1] ?s1 = Some ?s2"
    by simp
  have h4: "step (TimerFires 1) ?s2 = Some ?s3"
    by (simp add: on_timeout_def settle_def pending_delete_def clearTimeout_def obj_delete_def)
  have h5: "run [MessageArrives (response 1 (Some (JStr ''late'')) None)] ?s3 = Some ?s3"
    by (simp add: handleMessage_def response_def)
  from late_response_after_timeout [OF h1 h2 h3 h4 h5]
  have "outcome_of 1 ?s3 = Some (Reject (TimedOut ''slow/method'' 1 50))"
    by blast
  with h1 h2 h3 h4 h5 show ?thesis by blast
qed

section \<open>Properties of the server manager\<close>

lemma list_all_obj_delete: "list_all P ps \<Longrightarrow> list_all P (obj_delete k ps)"
  by (simp add: obj_delete_def list_all_iff)

lemma list_all_obj_set: "list_all P ps \<Longrightarrow> P (k, v) \<Longrightarrow> list_all P (obj_set k v ps)"
  by (induction ps) auto

lemma obj_get_delete_same [simp]: "obj_get (obj_delete k ps) k = None"
  by (simp add: obj_get_obj_delete)

lemma names_consistent_absent:
  "list_all (\<lambda>(k, m). st_name (ms_state m) = k) ps \<Longrightarrow> obj_get ps n = None
     \<Longrightarrow> n \<notin> set (map (\<lambda>(k, m). st_name (ms_state m)) ps)"
  by (induction ps) (auto split: if_splits)

lemma names_consistent_stopInternal:
  "names_consistent s \<Longrightarrow> names_consistent (stopInternal n s)"
  by (auto simp: names_consistent_def stopInternal_def Let_def emitStateChange_def
        list_all_obj_delete split: option.splits)

lemma stopInternal_events:
  "\<exists>ev. sm_events (stopInternal n s) = sm_events s @ ev"
  by (auto simp: stopInternal_def Let_def emitStateChange_def split: option.splits)

lemma stopInternal_absent [simp]: "obj_get (sm_servers (stopInternal n s)) n = None"
  by (auto simp: stopInternal_def Let_def emitStateChange_def split: option.splits)

text \<open>What a failing \<open>start_fresh\<close> leaves behind.\<close>

lemma start_fresh_fails:
  assumes "names_consistent s" and "start_fresh env now config s = (Inl err, s')"
  shows "obj_get (sm_servers s') (sc_name config) = None"
    and "names_consistent s'"
    and "\<exists>failed. sm_events s'
            = sm_events s @ [(sc_name config, initial_state (sc_name config) Starting)]
              @ [(sc_name config, failed)]
          \<and> st_status failed = Errored \<and> st_error failed = Some (error_message err)"
proof -
  from assms(2) obtain msg where c: "cb_connect (env (sm_clients_made s)) = ConnectFails msg"
    by (auto simp: start_fresh_def Let_def split: connect_outcome.splits)
  from assms(2) c have err: "err = StartupFailed msg"
    by (auto simp: start_fresh_def Let_def)
  from assms(2) c have s': "s' = emitStateChange (sc_name config)
      ((initial_state (sc_name config) Starting)\<lparr>st_status := Errored, st_error := Some msg\<rparr>)
      ((emitStateChange (sc_name config) (initial_state (sc_name config) Starting)
          (s\<lparr>sm_clients_made := sm_clients_made s + 1,
              sm_servers := obj_set (sc_name config)
                \<lparr>ms_config = config, ms_client = sm_clients_made s,
                 ms_state = initial_state (sc_name config) Starting\<rparr> (sm_servers s)\<rparr>))
        \<lparr>sm_servers := obj_delete (sc_name config)
            (obj_set (sc_name config)
                \<lparr>ms_config = config, ms_client = sm_clients_made s,
                 ms_state = initial_state (sc_name config) Starting\<rparr> (sm_servers s))\<rparr>)"
    by (auto simp: start_fresh_def Let_def emitStateChange_def)
  show "obj_get (sm_servers s') (sc_name config) = None"
    by (simp add: s' emitStateChange_def)
  have "list_all (\<lambda>(k, m). st_name (ms_state m) = k)
          (obj_set (sc_name config)
                \<lparr>ms_config = config, ms_client = sm_clients_made s,
                 ms_state = initial_state (sc_name config) Starting\<rparr> (sm_servers s))"
    using assms(1) by (intro list_all_obj_set) (simp_all add: names_consistent_def initial_state_def)
  then show "names_consistent s'"
    by (simp add: s' emitStateChange_def names_consistent_def list_all_obj_delete)
  show "\<exists>failed. sm_events s'
            = sm_events s @ [(sc_name config, initial_state (sc_name config) Starting)]
              @ [(sc_name config, failed)]
          \<and> st_status failed = Errored \<and> st_error failed = Some (error_message err)"
    by (simp add: s' err emitStateChange_def error_message_def)
qed

lemma start_fresh_connects:
  "cb_connect (env (sm_clients_made s)) = Connects caps info
     \<Longrightarrow> \<exists>st. fst (start_fresh env now config s) = Inr st \<and> st_status st = Running"
  by (simp add: start_fresh_def Let_def)

lemma start_fresh_never_already_running:
  "fst (start_fresh env now config s) \<noteq> Inl (AlreadyRunning n)"
  by (simp add: start_fresh_def Let_def split: connect_outcome.splits)

lemma stopInternal_clients_made [simp]: "sm_clients_made (stopInternal n s) = sm_clients_made s"
  by (auto simp: stopInternal_def Let_def emitStateChange_def split: option.splits)

text \<open>
  C5, as amended. When \<open>start(config)\<close> throws for another reason than the server being
  already running, that is, when the connection fails, then afterwards no state named
  \<open>config.name\<close> is listed, the last event emitted is a \<open>stateChange\<close> for \<open>config.name\<close>
  with status \<open>error\<close> and the error's message, and a new \<open>start(config)\<close> is not refused
  as already running: it succeeds as soon as its client connects.
\<close>

theorem start_failure_frees_slot:
  assumes "names_consistent s"
    and "start env now config s = (Inl err, s')"
    and "err \<noteq> AlreadyRunning (sc_name config)"
  shows "sc_name config \<notin> set (map st_name (list_states s'))
         \<and> get_state s' (sc_name config) = None
         \<and> (\<exists>before failed.
               sm_events s' = sm_events s @ before @ [(sc_name config, failed)]
               \<and> st_status failed = Errored \<and> st_error failed = Some (error_message err))
         \<and> fst (start env2 now2 config s') \<noteq> Inl (AlreadyRunning (sc_name config))
         \<and> (\<forall>caps info. cb_connect (env2 (sm_clients_made s')) = Connects caps info
               \<longrightarrow> (\<exists>st. fst (start env2 now2 config s') = Inr st \<and> st_status st = Running))"
proof -
  define s0 where "s0 = (case obj_get (sm_servers s) (sc_name config) of
                           Some existing \<Rightarrow> stopInternal (sc_name config) s | None \<Rightarrow> s)"
  have fresh: "start_fresh env now config s0 = (Inl err, s')"
    using assms(2,3) by (auto simp: start_def s0_def split: option.splits if_splits)
  have n0: "names_consistent s0"
    using assms(1) by (simp add: s0_def names_consistent_stopInternal split: option.splits)
  have "\<exists>ev. sm_events s0 = sm_events s @ ev"
  proof (cases "obj_get (sm_servers s) (sc_name config)")
    case None
    then show ?thesis by (simp add: s0_def)
  next
    case (Some existing)
    then show ?thesis
      using stopInternal_events [of "sc_name config" s] by (simp add: s0_def)
  qed
  then obtain ev where ev: "sm_events s0 = sm_events s @ ev" by blast
  note f = start_fresh_fails [OF n0 fresh]
  have absent: "obj_get (sm_servers s') (sc_name config) = None" by (rule f(1))
  have a: "sc_name config \<notin> set (map st_name (list_states s'))"
    using names_consistent_absent [OF f(2) [unfolded names_consistent_def] absent]
    by (simp add: list_states_def comp_def case_prod_unfold)
  have b: "get_state s' (sc_name config) = None"
    by (simp add: get_state_def absent)
  from f(3) obtain failed where
    e: "sm_events s' = sm_events s0 @ [(sc_name config, initial_state (sc_name config) Starting)]
          @ [(sc_name config, failed)]"
    and st: "st_status failed = Errored" "st_error failed = Some (error_message err)"
    by blast
  have c: "\<exists>before failed.
               sm_events s' = sm_events s @ before @ [(sc_name config, failed)]
               \<and> st_status failed = Errored \<and> st_error failed = Some (error_message err)"
    using e st ev
    by (intro exI [of _ "ev @ [(sc_name config, initial_state (sc_name config) Starting)]"]
          exI [of _ failed]) simp
  have retry: "start env2 now2 config s' = start_fresh env2 now2 config s'"
    by (simp add: start_def absent)
  have d: "fst (start env2 now2 config s') \<noteq> Inl (AlreadyRunning (sc_name config))"
    by (simp add: retry start_fresh_never_already_running)
  have e2: "\<forall>caps info. cb_connect (env2 (sm_clients_made s')) = Connects caps info
               \<longrightarrow> (\<exists>st. fst (start env2 now2 config s') = Inr st \<and> st_status st = Running)"
    using start_fresh_connects [of env2 s' _ _ now2 config] by (simp add: retry)
  from a b c d e2 show ?thesis by blast
qed

theorem start_failure_frees_slot_witness:
  "names_consistent new_ServerManager
   \<and> start never_connects ''t0'' (stdio_config ''bad-server'' ''node'') new_ServerManager
       = (Inl (StartupFailed ''spawn ENOENT''),
          \<lparr>sm_servers = [],
           sm_events = [(''bad-server'', initial_state ''bad-server'' Starting),
                        (''bad-server'', (initial_state ''bad-server'' Starting)
                           \<lparr>st_status := Errored, st_error := Some ''spawn ENOENT''\<rparr>)],
           sm_clients_made = 1, sm_disconnected = []\<rparr>)
   \<and> StartupFailed ''spawn ENOENT'' \<noteq> AlreadyRunning ''bad-server''
   \<and> ''bad-server'' \<notin> set (map st_name (list_states
          \<lparr>sm_servers = [],
           sm_events = [(''bad-server'', initial_state ''bad-server'' Starting),
                        (''bad-server'', (initial_state ''bad-server'' Starting)
                           \<lparr>st_status := Errored, st_error := Some ''spawn ENOENT''\<rparr>)],
           sm_clients_made = 1, sm_disconnected = []\<rparr>))
   \<and> (\<exists>st. fst (start always_connects ''t1'' (stdio_config ''bad-server'' ''node'')
          \<lparr>sm_servers = [],
           sm_events = [(''bad-server'', initial_state ''bad-server'' Starting),
                        (''bad-server'', (initial_state ''bad-server'' Starting)
                           \<lparr>st_status := Errored, st_error := Some ''spawn ENOENT''\<rparr>)],
           sm_clients_made = 1, sm_disconnected = []\<rparr>) = Inr st
        \<and> st_status st = Running)"
proof -
  let ?cfg = "stdio_config ''bad-server'' ''node''"
  let ?s' = "\<lparr>sm_servers = [],
           sm_events = [(''bad-server'', initial_state ''bad-server'' Starting),
                        (''bad-server'', (initial_state ''bad-server'' Starting)
                           \<lparr>st_status := Errored, st_error := Some ''spawn ENOENT''\<rparr>)],
           sm_clients_made = 1, sm_disconnected = []\<rparr>"
  have n: "sc_name ?cfg = ''bad-server''"
    by (simp add: stdio_config_def)
  have h1: "names_consistent new_ServerManager"
    by (simp add: names_consistent_def new_ServerManager_def)
  have h2: "start never_connects ''t0'' ?cfg new_ServerManager
              = (Inl (StartupFailed ''spawn ENOENT''), ?s')"
    by (simp add: start_def start_fresh_def Let_def n new_ServerManager_def never_connects_def
          emitStateChange_def obj_delete_def)
  have h3: "StartupFailed ''spawn ENOENT'' \<noteq> AlreadyRunning (sc_name ?cfg)"
    by simp
  have c: "cb_connect (always_connects (sm_clients_made ?s')) = Connects None None"
    by (simp add: always_connects_def)
  from start_failure_frees_slot [OF h1 h2 h3, of always_connects "''t1''"] c n
  have "''bad-server'' \<notin> set (map st_name (list_states ?s'))"
    and "\<exists>st. fst (start always_connects ''t1'' ?cfg ?s') = Inr st \<and> st_status st = Running"
    by auto
  with h1 h2 show ?thesis by simp
qed

text \<open>
  The claim as stated fails when \<open>start\<close> throws because the server is already running:
  nothing is changed, the running server stays listed and no \<open>error\<close> event is emitted.
\<close>

theorem start_already_running_counterexample:
  "start always_connects ''t0'' (stdio_config ''srv'' ''node'') new_ServerManager
     = (Inr ((initial_state ''srv'' Starting)
               \<lparr>st_status := Running, st_startedAt := Some ''t0'', st_toolCount := Some 0\<rparr>),
        \<lparr>sm_servers = [(''srv'', \<lparr>ms_config = stdio_config ''srv'' ''node'', ms_client = 0,
                           ms_state = (initial_state ''srv'' Starting)
               \<lparr>st_status := Running, st_startedAt := Some ''t0'', st_toolCount := Some 0\<rparr>\<rparr>)],
         sm_events = [(''srv'', initial_state ''srv'' Starting),
                      (''srv'', (initial_state ''srv'' Starting)
               \<lparr>st_status := Running, st_startedAt := Some ''t0'', st_toolCount := Some 0\<rparr>)],
         sm_clients_made = 1, sm_disconnected = []\<rparr>)
   \<and> start never_connects ''t1'' (stdio_config ''srv'' ''node'')
        \<lparr>sm_servers = [(''srv'', \<lparr>ms_config = stdio_config ''srv'' ''node'', ms_client = 0,
                           ms_state = (initial_state ''srv'' Starting)
               \<lparr>st_status := Running, st_startedAt := Some ''t0'', st_toolCount := Some 0\<rparr>\<rparr>)],
         sm_events = [(''srv'', initial_state ''srv'' Starting),
                      (''srv'', (initial_state ''srv'' Starting)
               \<lparr>st_status := Running, st_startedAt := Some ''t0'', st_toolCount := Some 0\<rparr>)],
         sm_clients_made = 1, sm_disconnected = []\<rparr>
     = (Inl (AlreadyRunning ''srv''),
        \<lparr>sm_servers = [(''srv'', \<lparr>ms_config = stdio_config ''srv'' ''node'', ms_client = 0,
                           ms_state = (initial_state ''srv'' Starting)
               \<lparr>st_status := Running, st_startedAt := Some ''t0'', st_toolCount := Some 0\<rparr>\<rparr>)],
         sm_events = [(''srv'', initial_state ''srv'' Starting),
                      (''srv'', (initial_state ''srv'' Starting)
               \<lparr>st_status := Running, st_startedAt := Some ''t0'', st_toolCount := Some 0\<rparr>)],
         sm_clients_made = 1, sm_disconnected = []\<rparr>)
   \<and> map st_name (list_states
        \<lparr>sm_servers = [(''srv'', \<lparr>ms_config = stdio_config ''srv'' ''node'', ms_client = 0,
                           ms_state = (initial_state ''srv'' Starting)
               \<lparr>st_status := Running, st_startedAt := Some ''t0'', st_toolCount := Some 0\<rparr>\<rparr>)],
         sm_events = [(''srv'', initial_state ''srv'' Starting),
                      (''srv'', (initial_state ''srv'' Starting)
               \<lparr>st_status := Running, st_startedAt := Some ''t0'', st_toolCount := Some 0\<rparr>)],
         sm_clients_made = 1, sm_disconnected = []\<rparr>) = [''srv'']"
proof -
  have n: "sc_name (stdio_config ''srv'' ''node'') = ''srv''"
    by (simp add: stdio_config_def)
  show ?thesis
    by (simp add: start_def start_fresh_def Let_def n new_ServerManager_def always_connects_def
          emitStateChange_def set_state_def list_states_def initial_state_def)
qed

subsection \<open>Registering a server that is not started\<close>

lemma obj_get_Some_mem: "obj_get ps k = Some v \<Longrightarrow> (k, v) \<in> set ps"
  by (induction ps) (auto split: if_splits)

lemma obj_get_set_state_servers:
  "obj_get (sm_servers (set_state k st s)) n
     = map_option (\<lambda>m. if k = n then m\<lparr>ms_state := st\<rparr> else m) (obj_get (sm_servers s) n)"
proof -
  have "obj_get (map (\<lambda>(k', m). if k' = k then (k', m\<lparr>ms_state := st\<rparr>) else (k', m)) ps) n
          = map_option (\<lambda>m. if k = n then m\<lparr>ms_state := st\<rparr> else m) (obj_get ps n)" for ps
    by (induction ps) auto
  then show ?thesis by (simp add: set_state_def)
qed

lemma list_all_set_state:
  "list_all (\<lambda>(k, m). ms_client m = x \<longrightarrow> k = n) ps
     \<Longrightarrow> list_all (\<lambda>(k, m). ms_client m = x \<longrightarrow> k = n)
           (map (\<lambda>(k, m). if k = name then (k, m\<lparr>ms_state := st\<rparr>) else (k, m)) ps)"
  by (induction ps) (auto split: if_splits)

lemma held_only_by_stopInternal:
  assumes "held_only_by x n s" and "k \<noteq> n"
  shows "held_only_by x n (stopInternal k s)"
    and "obj_get (sm_servers (stopInternal k s)) n = obj_get (sm_servers s) n"
    and "\<exists>ds. sm_disconnected (stopInternal k s) = sm_disconnected s @ ds \<and> x \<notin> set ds"
proof -
  show "held_only_by x n (stopInternal k s)"
    using assms(1)
    by (auto simp: held_only_by_def stopInternal_def Let_def emitStateChange_def
          list_all_obj_delete split: option.splits)
  show "obj_get (sm_servers (stopInternal k s)) n = obj_get (sm_servers s) n"
    using assms(2)
    by (auto simp: stopInternal_def Let_def emitStateChange_def obj_get_obj_delete
          split: option.splits)
  show "\<exists>ds. sm_disconnected (stopInternal k s) = sm_disconnected s @ ds \<and> x \<notin> set ds"
  proof (cases "obj_get (sm_servers s) k")
    case None
    then show ?thesis by (simp add: stopInternal_def)
  next
    case (Some m)
    from obj_get_Some_mem [OF Some] assms have "ms_client m \<noteq> x"
      by (auto simp: held_only_by_def list_all_iff)
    with Some show ?thesis
      by (simp add: stopInternal_def Let_def emitStateChange_def)
  qed
qed

lemma held_only_by_start_fresh:
  assumes "held_only_by x n s" and "sc_name c \<noteq> n" and "start_fresh env now c s = (r, s')"
  shows "held_only_by x n s'"
    and "obj_get (sm_servers s') n = obj_get (sm_servers s) n"
    and "sm_disconnected s' = sm_disconnected s"
proof -
  let ?entry = "\<lparr>ms_config = c, ms_client = sm_clients_made s,
                  ms_state = initial_state (sc_name c) Starting\<rparr>"
  have base: "list_all (\<lambda>(k, m). ms_client m = x \<longrightarrow> k = n) (obj_set (sc_name c) ?entry (sm_servers s))"
    using assms(1) by (intro list_all_obj_set) (auto simp: held_only_by_def)
  have lt: "x < sm_clients_made s"
    using assms(1) by (simp add: held_only_by_def)
  show "held_only_by x n s'"
  proof (cases "cb_connect (env (sm_clients_made s))")
    case (ConnectFails msg)
    with assms(3) base lt show ?thesis
      by (auto simp: start_fresh_def Let_def emitStateChange_def held_only_by_def
            list_all_obj_delete)
  next
    case (Connects caps info)
    with assms(3) lt show ?thesis
      by (auto simp: start_fresh_def Let_def emitStateChange_def held_only_by_def set_state_def
            list_all_set_state [OF base])
  qed
  show "obj_get (sm_servers s') n = obj_get (sm_servers s) n"
    using assms(2,3)
    by (cases "cb_connect (env (sm_clients_made s))")
       (auto simp: start_fresh_def Let_def emitStateChange_def obj_get_set_state_servers
          obj_get_obj_set obj_get_obj_delete option.map_ident)
  show "sm_disconnected s' = sm_disconnected s"
    using assms(3)
    by (cases "cb_connect (env (sm_clients_made s))")
       (auto simp: start_fresh_def Let_def emitStateChange_def set_state_def)
qed

lemma held_only_by_start:
  assumes "held_only_by x n s" and "sc_name c \<noteq> n" and "start env now c s = (r, s')"
  shows "held_only_by x n s'
         \<and> obj_get (sm_servers s') n = obj_get (sm_servers s) n
         \<and> (\<exists>ds. sm_disconnected s' = sm_disconnected s @ ds \<and> x \<notin> set ds)"
proof (cases "obj_get (sm_servers s) (sc_name c)")
  case None
  with assms(3) have f: "start_fresh env now c s = (r, s')"
    by (simp add: start_def)
  from held_only_by_start_fresh [OF assms(1,2) f] show ?thesis by simp
next
  case (Some existing)
  show ?thesis
  proof (cases "st_status (ms_state existing) = Running")
    case True
    with Some assms(1,3) show ?thesis by (auto simp: start_def)
  next
    case False
    with Some assms(3) have f: "start_fresh env now c (stopInternal (sc_name c) s) = (r, s')"
      by (simp add: start_def)
    note st = held_only_by_stopInternal [OF assms(1,2)]
    from held_only_by_start_fresh [OF st(1) assms(2) f] st(2,3) show ?thesis by auto
  qed
qed

lemma startAll_step_other:
  assumes "held_only_by x n s" and "sc_name c \<noteq> n"
    and "startAll_step env now c (res, s) = (res', s')"
  shows "held_only_by x n s'
         \<and> obj_get (sm_servers s') n = obj_get (sm_servers s) n
         \<and> obj_get res' n = obj_get res n
         \<and> sm_clients_made s \<le> sm_clients_made s'
         \<and> (\<exists>ds. sm_disconnected s' = sm_disconnected s @ ds \<and> x \<notin> set ds)"
proof (cases "sc_autoStart c = Some False")
  case True
  let ?entry = "\<lparr>ms_config = c, ms_client = sm_clients_made s,
                  ms_state = initial_state (sc_name c) Stopped\<rparr>"
  have "list_all (\<lambda>(k, m). ms_client m = x \<longrightarrow> k = n) (obj_set (sc_name c) ?entry (sm_servers s))"
    using assms(1) by (intro list_all_obj_set) (auto simp: held_only_by_def)
  with True assms show ?thesis
    by (auto simp: startAll_step_def Let_def held_only_by_def obj_get_obj_set)
next
  case False
  obtain r s1 where st: "start env now c s = (r, s1)"
    by (cases "start env now c s")
  from False st assms(3) have s': "s' = s1"
    and res': "obj_get res' n = obj_get res n"
    using assms(2) by (auto simp: startAll_step_def obj_get_obj_set split: sum.splits)
  have mono: "sm_clients_made s \<le> sm_clients_made s1"
    using st
    by (auto simp: start_def start_fresh_def Let_def emitStateChange_def set_state_def
          split: option.splits if_splits connect_outcome.splits)
  from held_only_by_start [OF assms(1,2) st] s' res' mono show ?thesis by simp
qed

lemma startAll_others:
  assumes "held_only_by x n s" and "\<forall>c \<in> set cs. sc_name c \<noteq> n"
    and "fold (startAll_step env now) cs (res, s) = (res', s')"
  shows "held_only_by x n s'
         \<and> obj_get (sm_servers s') n = obj_get (sm_servers s) n
         \<and> obj_get res' n = obj_get res n
         \<and> sm_clients_made s \<le> sm_clients_made s'
         \<and> (\<exists>ds. sm_disconnected s' = sm_disconnected s @ ds \<and> x \<notin> set ds)"
  using assms
proof (induction cs arbitrary: res s)
  case Nil
  then show ?case by simp
next
  case (Cons c cs)
  obtain res1 s1 where one: "startAll_step env now c (res, s) = (res1, s1)"
    by (cases "startAll_step env now c (res, s)")
  from Cons.prems(2) have c: "sc_name c \<noteq> n" and cs: "\<forall>c \<in> set cs. sc_name c \<noteq> n"
    by simp_all
  note a = startAll_step_other [OF Cons.prems(1) c one]
  from Cons.prems(3) one have rest: "fold (startAll_step env now) cs (res1, s1) = (res', s')"
    by simp
  from a have h1: "held_only_by x n s1" by simp
  note b = Cons.IH [OF h1 cs rest]
  from a obtain ds1 where d1: "sm_disconnected s1 = sm_disconnected s @ ds1" "x \<notin> set ds1"
    by blast
  from b obtain ds2 where d2: "sm_disconnected s' = sm_disconnected s1 @ ds2" "x \<notin> set ds2"
    by blast
  have "sm_disconnected s' = sm_disconnected s @ (ds1 @ ds2) \<and> x \<notin> set (ds1 @ ds2)"
    using d1 d2 by simp
  then have "\<exists>ds. sm_disconnected s' = sm_disconnected s @ ds \<and> x \<notin> set ds"
    by blast
  with a b show ?case by simp
qed

text \<open>
  C10, as amended. A server named \<open>n\<close> is registered (in any status, \<open>running\<close>
  included) and its client is held by that entry only. \<open>startAll\<close> is called with a list
  in which the config \<open>{name: n, autoStart: false}\<close> is the only one named \<open>n\<close>.
  \<open>startAll\<close> returns its results (it has no failing outcome), and afterwards \<open>get(n)\<close>
  is the fresh \<open>stopped\<close> state, \<open>getClient(n)\<close> is \<open>undefined\<close>, the entry holds the
  new config and a client constructed during the call, the results map reports
  \<open>stopped\<close> for \<open>n\<close>, and \<open>disconnect\<close> was called on the former client at no point of
  the call.
\<close>

theorem startAll_registers_over_existing:
  assumes "obj_get (sm_servers s) n = Some old"
    and "held_only_by (ms_client old) n s"
    and "sc_name config = n"
    and "sc_autoStart config = Some False"
    and "\<forall>c \<in> set pre \<union> set post. sc_name c \<noteq> n"
    and "startAll env now (pre @ config # post) s = (results, s')"
  shows "get_state s' n = Some (initial_state n Stopped)
         \<and> getClient s' n = None
         \<and> obj_get results n = Some (initial_state n Stopped)
         \<and> (\<exists>fresh. obj_get (sm_servers s') n
                = Some \<lparr>ms_config = config, ms_client = fresh, ms_state = initial_state n Stopped\<rparr>
              \<and> sm_clients_made s \<le> fresh \<and> fresh \<noteq> ms_client old)
         \<and> (\<exists>ds. sm_disconnected s' = sm_disconnected s @ ds \<and> ms_client old \<notin> set ds)"
proof -
  let ?x = "ms_client old"
  obtain res1 s1 where p1: "fold (startAll_step env now) pre ([], s) = (res1, s1)"
    by (cases "fold (startAll_step env now) pre ([], s)")
  obtain res2 s2 where p2: "startAll_step env now config (res1, s1) = (res2, s2)"
    by (cases "startAll_step env now config (res1, s1)")
  from assms(6) p1 p2 have p3: "fold (startAll_step env now) post (res2, s2) = (results, s')"
    by (simp add: startAll_def)
  from assms(5) have pre: "\<forall>c \<in> set pre. sc_name c \<noteq> n" and post: "\<forall>c \<in> set post. sc_name c \<noteq> n"
    by auto
  note a = startAll_others [OF assms(2) pre p1]
  from a assms(1) have e1: "obj_get (sm_servers s1) n = Some old" by simp
  from a have h1: "held_only_by ?x n s1" and m1: "sm_clients_made s \<le> sm_clients_made s1"
    by simp_all
  from a obtain ds1 where d1: "sm_disconnected s1 = sm_disconnected s @ ds1" "?x \<notin> set ds1"
    by blast
  let ?fresh = "sm_clients_made s1"
  let ?entry = "\<lparr>ms_config = config, ms_client = ?fresh, ms_state = initial_state n Stopped\<rparr>"
  from p2 assms(3,4) have s2: "s2 = s1\<lparr>sm_clients_made := ?fresh + 1,
                                        sm_servers := obj_set n ?entry (sm_servers s1)\<rparr>"
    and r2: "res2 = obj_set n (initial_state n Stopped) res1"
    by (auto simp: startAll_step_def Let_def)
  from h1 have lt: "?x < ?fresh" by (simp add: held_only_by_def)
  have "list_all (\<lambda>(k, m). ms_client m = ?x \<longrightarrow> k = n) (obj_set n ?entry (sm_servers s1))"
    using h1 by (intro list_all_obj_set) (auto simp: held_only_by_def)
  with lt have h2: "held_only_by ?x n s2"
    by (simp add: s2 held_only_by_def)
  have e2: "obj_get (sm_servers s2) n = Some ?entry"
    by (simp add: s2 obj_get_obj_set)
  have d2: "sm_disconnected s2 = sm_disconnected s1"
    by (simp add: s2)
  note b = startAll_others [OF h2 post p3]
  from b e2 have e3: "obj_get (sm_servers s') n = Some ?entry" by simp
  from b r2 have r3: "obj_get results n = Some (initial_state n Stopped)"
    by (simp add: obj_get_obj_set)
  from b obtain ds2 where d3: "sm_disconnected s' = sm_disconnected s2 @ ds2" "?x \<notin> set ds2"
    by blast
  have g: "get_state s' n = Some (initial_state n Stopped)"
    by (simp add: get_state_def e3)
  have c: "getClient s' n = None"
    by (simp add: getClient_def e3 initial_state_def)
  have f: "\<exists>fresh. obj_get (sm_servers s') n
                = Some \<lparr>ms_config = config, ms_client = fresh, ms_state = initial_state n Stopped\<rparr>
              \<and> sm_clients_made s \<le> fresh \<and> fresh \<noteq> ?x"
    using e3 m1 lt by (intro exI [of _ ?fresh]) simp
  have "sm_disconnected s' = sm_disconnected s @ (ds1 @ ds2) \<and> ?x \<notin> set (ds1 @ ds2)"
    using d1 d2 d3 by simp
  then have d: "\<exists>ds. sm_disconnected s' = sm_disconnected s @ ds \<and> ?x \<notin> set ds"
    by blast
  from g c r3 f d show ?thesis by blast
qed

theorem startAll_registers_over_existing_witness:
  "obj_get [(''srv'', \<lparr>ms_config = stdio_config ''srv'' ''node'', ms_client = 0,
                      ms_state = initial_state ''srv'' Running\<rparr>)] ''srv''
     = Some \<lparr>ms_config = stdio_config ''srv'' ''node'', ms_client = 0,
             ms_state = initial_state ''srv'' Running\<rparr>
   \<and> held_only_by 0 ''srv''
        \<lparr>sm_servers = [(''srv'', \<lparr>ms_config = stdio_config ''srv'' ''node'', ms_client = 0,
                                 ms_state = initial_state ''srv'' Running\<rparr>)],
         sm_events = [], sm_clients_made = 1, sm_disconnected = []\<rparr>
   \<and> sc_name ((stdio_config ''srv'' ''node'')\<lparr>sc_autoStart := Some False\<rparr>) = ''srv''
   \<and> sc_autoStart ((stdio_config ''srv'' ''node'')\<lparr>sc_autoStart := Some False\<rparr>) = Some False
   \<and> sc_name (stdio_config ''other'' ''node'') \<noteq> ''srv''
   \<and> startAll always_connects ''t1''
        [(stdio_config ''other'' ''node''), (stdio_config ''srv'' ''node'')\<lparr>sc_autoStart := Some False\<rparr>]
        \<lparr>sm_servers = [(''srv'', \<lparr>ms_config = stdio_config ''srv'' ''node'', ms_client = 0,
                                 ms_state = initial_state ''srv'' Running\<rparr>)],
         sm_events = [], sm_clients_made = 1, sm_disconnected = []\<rparr>
     = ([(''other'', (initial_state ''other'' Starting)
            \<lparr>st_status := Running, st_startedAt := Some ''t1'', st_toolCount := Some 0\<rparr>),
         (''srv'', initial_state ''srv'' Stopped)],
        \<lparr>sm_servers =
           [(''srv'', \<lparr>ms_config = (stdio_config ''srv'' ''node'')\<lparr>sc_autoStart := Some False\<rparr>,
                      ms_client = 2, ms_state = initial_state ''srv'' Stopped\<rparr>),
            (''other'', \<lparr>ms_config = stdio_config ''other'' ''node'', ms_client = 1,
                        ms_state = (initial_state ''other'' Starting)
            \<lparr>st_status := Running, st_startedAt := Some ''t1'', st_toolCount := Some 0\<rparr>\<rparr>)],
         sm_events =
           [(''other'', initial_state ''other'' Starting),
            (''other'', (initial_state ''other'' Starting)
            \<lparr>st_status := Running, st_startedAt := Some ''t1'', st_toolCount := Some 0\<rparr>)],
         sm_clients_made = 3, sm_disconnected = []\<rparr>)
   \<and> getClient
        \<lparr>sm_servers =
           [(''srv'', \<lparr>ms_config = (stdio_config ''srv'' ''node'')\<lparr>sc_autoStart := Some False\<rparr>,
                      ms_client = 2, ms_state = initial_state ''srv'' Stopped\<rparr>),
            (''other'', \<lparr>ms_config = stdio_config ''other'' ''node'', ms_client = 1,
                        ms_state = (initial_state ''other'' Starting)
            \<lparr>st_status := Running, st_startedAt := Some ''t1'', st_toolCount := Some 0\<rparr>\<rparr>)],
         sm_events =
           [(''other'', initial_state ''other'' Starting),
            (''other'', (initial_state ''other'' Starting)
            \<lparr>st_status := Running, st_startedAt := Some ''t1'', st_toolCount := Some 0\<rparr>)],
         sm_clients_made = 3, sm_disconnected = []\<rparr> ''srv'' = None"
proof -
  let ?old = "\<lparr>ms_config = stdio_config ''srv'' ''node'', ms_client = 0,
               ms_state = initial_state ''srv'' Running\<rparr>"
  let ?s = "\<lparr>sm_servers = [(''srv'', ?old)],
             sm_events = [], sm_clients_made = 1, sm_disconnected = []\<rparr>"
  let ?cfg = "(stdio_config ''srv'' ''node'')\<lparr>sc_autoStart := Some False\<rparr>"
  let ?running = "(initial_state ''other'' Starting)
            \<lparr>st_status := Running, st_startedAt := Some ''t1'', st_toolCount := Some 0\<rparr>"
  let ?s' = "\<lparr>sm_servers =
           [(''srv'', \<lparr>ms_config = ?cfg, ms_client = 2, ms_state = initial_state ''srv'' Stopped\<rparr>),
            (''other'', \<lparr>ms_config = stdio_config ''other'' ''node'', ms_client = 1,
                        ms_state = ?running\<rparr>)],
         sm_events = [(''other'', initial_state ''other'' Starting), (''other'', ?running)],
         sm_clients_made = 3, sm_disconnected = []\<rparr>"
  have h1: "obj_get (sm_servers ?s) ''srv'' = Some ?old"
    by simp
  have h2: "held_only_by (ms_client ?old) ''srv'' ?s"
    by (simp add: held_only_by_def)
  have h3: "sc_name ?cfg = ''srv''" and h4: "sc_autoStart ?cfg = Some False"
    by (simp_all add: stdio_config_def)
  have h5: "\<forall>c \<in> set [stdio_config ''other'' ''node''] \<union> set []. sc_name c \<noteq> ''srv''"
    by (simp add: stdio_config_def)
  have h6: "startAll always_connects ''t1'' ([stdio_config ''other'' ''node''] @ ?cfg # []) ?s
      = ([(''other'', ?running), (''srv'', initial_state ''srv'' Stopped)], ?s')"
    by (simp add: startAll_def startAll_step_def start_def start_fresh_def Let_def
          stdio_config_def always_connects_def emitStateChange_def set_state_def
          initial_state_def)
  have h5': "sc_name (stdio_config ''other'' ''node'') \<noteq> ''srv''"
    by (simp add: stdio_config_def)
  from startAll_registers_over_existing [OF h1 h2 h3 h4 h5 h6]
  have "getClient ?s' ''srv'' = None" by blast
  with h1 h2 h3 h4 h5' h6 show ?thesis by simp
qed

text \<open>
  The claim as stated, for every list containing the config, fails when a later config
  of the list carries the same name and is started: \<open>start\<close> finds the \<open>stopped\<close> slot,
  evicts it (disconnecting the client just constructed, not the former one) and starts
  the server, so \<open>get(n)\<close> reports \<open>running\<close> and \<open>getClient(n)\<close> returns the third
  client.
\<close>

theorem startAll_duplicate_name_counterexample:
  "get_state
     (snd (startAll always_connects ''t1''
        [(stdio_config ''srv'' ''node'')\<lparr>sc_autoStart := Some False\<rparr>, stdio_config ''srv'' ''node'']
        \<lparr>sm_servers = [(''srv'', \<lparr>ms_config = stdio_config ''srv'' ''node'', ms_client = 0,
                                 ms_state = initial_state ''srv'' Running\<rparr>)],
         sm_events = [], sm_clients_made = 1, sm_disconnected = []\<rparr>)) ''srv''
     = Some ((initial_state ''srv'' Starting)
               \<lparr>st_status := Running, st_startedAt := Some ''t1'', st_toolCount := Some 0\<rparr>)
   \<and> getClient
     (snd (startAll always_connects ''t1''
        [(stdio_config ''srv'' ''node'')\<lparr>sc_autoStart := Some False\<rparr>, stdio_config ''srv'' ''node'']
        \<lparr>sm_servers = [(''srv'', \<lparr>ms_config = stdio_config ''srv'' ''node'', ms_client = 0,
                                 ms_state = initial_state ''srv'' Running\<rparr>)],
         sm_events = [], sm_clients_made = 1, sm_disconnected = []\<rparr>)) ''srv''
     = Some 2
   \<and> sm_disconnected
     (snd (startAll always_connects ''t1''
        [(stdio_config ''srv'' ''node'')\<lparr>sc_autoStart := Some False\<rparr>, stdio_config ''srv'' ''node'']
        \<lparr>sm_servers = [(''srv'', \<lparr>ms_config = stdio_config ''srv'' ''node'', ms_client = 0,
                                 ms_state = initial_state ''srv'' Running\<rparr>)],
         sm_events = [], sm_clients_made = 1, sm_disconnected = []\<rparr>))
     = [1]"
  by (simp add: startAll_def startAll_step_def start_def start_fresh_def stopInternal_def Let_def
        stdio_config_def always_connects_def emitStateChange_def set_state_def
        initial_state_def get_state_def getClient_def obj_delete_def)

end
